theory Spec2Isabelle
  imports
    Complex_Main
    "HOL-Library.List_Lexorder"
    "HOL-Library.Char_ord"
    "HOL-Library.Multiset"
begin

section \<open>Python values used by the recommendation code\<close>

text \<open>
  A product identifier is the string \<^verbatim>\<open>str(item.object_id)\<close> (API layer) or
  \<^verbatim>\<open>item.product_id\<close> (standalone module). Strings are compared as Python compares
  them, lexicographically by character code. A cart is seen by the analyses only through
  the sequence of the identifiers of its items in the order they were added
  (\<^verbatim>\<open>cart.items.all().order_by('added_at')\<close>, \<^verbatim>\<open>cart.get_product_sequence()\<close>), so a
  cart is that list.
\<close>

type_synonym product_id = string
type_synonym cart = "product_id list"

text \<open>The exceptions the analysed statements can raise: an index out of range and a
  division by zero.\<close>

datatype py_error = IndexError | ZeroDivisionError

definition py_index :: "'a list \<Rightarrow> nat \<Rightarrow> py_error + 'a" where
  "py_index xs i = (if i < length xs then Inr (xs ! i) else Inl IndexError)"

text \<open>A \<^verbatim>\<open>for\<close> loop over a list of values whose body may raise: the first exception
  ends the loop.\<close>

fun for_each :: "'i list \<Rightarrow> ('i \<Rightarrow> 's \<Rightarrow> py_error + 's) \<Rightarrow> 's \<Rightarrow> py_error + 's" where
  "for_each [] body s = Inr s"
| "for_each (i # rest) body s =
     (case body i s of Inl e \<Rightarrow> Inl e | Inr s' \<Rightarrow> for_each rest body s')"

text \<open>\<^verbatim>\<open>range(lo, hi)\<close> for non-negative bounds. The sources call \<^verbatim>\<open>range(len(items) - 1)\<close>,
  which is empty for an empty list; the truncating subtraction of \<open>nat\<close> gives the same
  empty range.\<close>

definition py_range :: "nat \<Rightarrow> nat \<Rightarrow> nat list" where
  "py_range lo hi = [lo..<hi]"

subsection \<open>Dictionaries in insertion order\<close>

text \<open>
  A Python \<^verbatim>\<open>dict\<close> iterates in the order in which its keys were first inserted, and the
  results below depend on that order, so a dictionary is an association list.
  \<open>dict_update k d f\<close> is \<^verbatim>\<open>m[k] = f(m[k])\<close> on a \<^verbatim>\<open>defaultdict\<close> whose default value
  is \<open>d\<close>: an existing key keeps its position, a new key is appended.
\<close>

type_synonym ('k, 'v) dict = "('k \<times> 'v) list"

fun dict_update :: "'k \<Rightarrow> 'v \<Rightarrow> ('v \<Rightarrow> 'v) \<Rightarrow> ('k, 'v) dict \<Rightarrow> ('k, 'v) dict" where
  "dict_update k d f [] = [(k, f d)]"
| "dict_update k d f ((k', v) # kvs) =
     (if k' = k then (k', f v) # kvs else (k', v) # dict_update k d f kvs)"

definition dict_set :: "'k \<Rightarrow> 'v \<Rightarrow> ('k, 'v) dict \<Rightarrow> ('k, 'v) dict" where
  "dict_set k v m = dict_update k v (\<lambda>_. v) m"

text \<open>\<^verbatim>\<open>collections.Counter\<close>: \<^verbatim>\<open>c[k] += 1\<close>, \<^verbatim>\<open>Counter(iterable)\<close>, and
  \<^verbatim>\<open>most_common(n)\<close>, which lists the \<open>n\<close> entries with the highest counts, highest
  first, entries with equal counts in the order first encountered (nothing for
  \<open>n \<le> 0\<close>).\<close>

definition counter_incr :: "'k \<Rightarrow> ('k, nat) dict \<Rightarrow> ('k, nat) dict" where
  "counter_incr k c = dict_update k 0 Suc c"

definition Counter :: "'k list \<Rightarrow> ('k, nat) dict" where
  "Counter xs = fold counter_incr xs []"

text \<open>\<^verbatim>\<open>sorted(entries, key=lambda x: x[1], reverse=True)\<close>: a stable sort, highest
  count first.\<close>

definition sorted_by_count_desc :: "('k \<times> nat) list \<Rightarrow> ('k \<times> nat) list" where
  "sorted_by_count_desc entries = sort_key (\<lambda>x. - int (snd x)) entries"

definition most_common :: "int \<Rightarrow> ('k, nat) dict \<Rightarrow> ('k \<times> nat) list" where
  "most_common n c = take (nat n) (sorted_by_count_desc c)"

text \<open>\<^verbatim>\<open>counter.most_common(1)[0]\<close>: indexing the empty list raises.\<close>

definition most_common_first :: "('k, nat) dict \<Rightarrow> py_error + ('k \<times> nat)" where
  "most_common_first c = py_index (most_common 1 c) 0"

section \<open>The standalone module: predecessor analysis\<close>

text \<open>\<^verbatim>\<open>shopping_cart.py\<close>: \<^verbatim>\<open>ProductSequenceStats\<close> and \<^verbatim>\<open>analyze_product_sequences\<close>.\<close>

record ProductSequenceStats =
  product_id :: product_id
  most_common_predecessor :: "product_id option"
  occurrences :: nat

text \<open>The body of the loop \<^verbatim>\<open>for i in range(1, len(sequence))\<close>:
  \<^verbatim>\<open>predecessor_counts[current][predecessor] += 1\<close> on a \<^verbatim>\<open>defaultdict(Counter)\<close>.\<close>

definition count_predecessor ::
  "cart \<Rightarrow> nat \<Rightarrow> (product_id, (product_id, nat) dict) dict
     \<Rightarrow> py_error + (product_id, (product_id, nat) dict) dict" where
  "count_predecessor sequence i predecessor_counts =
     (case py_index sequence (i - 1) of Inl e \<Rightarrow> Inl e | Inr predecessor \<Rightarrow>
       (case py_index sequence i of Inl e \<Rightarrow> Inl e | Inr current \<Rightarrow>
          Inr (dict_update current [] (counter_incr predecessor) predecessor_counts)))"

definition scan_predecessors ::
  "cart \<Rightarrow> (product_id, (product_id, nat) dict) dict
     \<Rightarrow> py_error + (product_id, (product_id, nat) dict) dict" where
  "scan_predecessors sequence predecessor_counts =
     for_each (py_range 1 (length sequence)) (count_predecessor sequence) predecessor_counts"

text \<open>The body of the loop over \<^verbatim>\<open>predecessor_counts.items()\<close>.\<close>

definition build_stats ::
  "product_id \<times> (product_id, nat) dict \<Rightarrow> (product_id, ProductSequenceStats) dict
     \<Rightarrow> py_error + (product_id, ProductSequenceStats) dict" where
  "build_stats entry results =
     (case entry of (pid, predecessors) \<Rightarrow>
        if predecessors \<noteq> [] then
          (case most_common_first predecessors of
             Inl e \<Rightarrow> Inl e
           | Inr (most_common_pred_id, cnt) \<Rightarrow>
               Inr (dict_set pid
                 \<lparr>product_id = pid, most_common_predecessor = Some most_common_pred_id,
                  occurrences = cnt\<rparr> results))
        else
          Inr (dict_set pid
            \<lparr>product_id = pid, most_common_predecessor = None, occurrences = 0\<rparr> results))"

definition analyze_product_sequences ::
  "cart list \<Rightarrow> py_error + (product_id, ProductSequenceStats) dict" where
  "analyze_product_sequences carts =
     (case for_each carts scan_predecessors [] of
        Inl e \<Rightarrow> Inl e
      | Inr predecessor_counts \<Rightarrow> for_each predecessor_counts build_stats [])"

section \<open>The API layer: \<^verbatim>\<open>shop/recommendations.py\<close>\<close>

subsection \<open>\<^verbatim>\<open>analyze_product_sequences\<close> (most common follower)\<close>

text \<open>The API layer has a function of the same name that records, for each product, the
  products added right after it. It is \<open>shop_analyze_product_sequences\<close> here. The loop
  body over \<^verbatim>\<open>range(len(items) - 1)\<close> is
  \<^verbatim>\<open>product_followers[current_product_id].append(next_product_id)\<close>.\<close>

definition record_follower ::
  "cart \<Rightarrow> nat \<Rightarrow> (product_id, product_id list) dict
     \<Rightarrow> py_error + (product_id, product_id list) dict" where
  "record_follower items i product_followers =
     (case py_index items i of Inl e \<Rightarrow> Inl e | Inr current_product_id \<Rightarrow>
       (case py_index items (i + 1) of Inl e \<Rightarrow> Inl e | Inr next_product_id \<Rightarrow>
          Inr (dict_update current_product_id [] (\<lambda>fs. fs @ [next_product_id])
                 product_followers)))"

definition scan_followers ::
  "cart \<Rightarrow> (product_id, product_id list) dict
     \<Rightarrow> py_error + (product_id, product_id list) dict" where
  "scan_followers items product_followers =
     for_each (py_range 0 (length items - 1)) (record_follower items) product_followers"

definition build_result ::
  "product_id \<times> product_id list \<Rightarrow> (product_id, product_id \<times> nat) dict
     \<Rightarrow> py_error + (product_id, product_id \<times> nat) dict" where
  "build_result entry result =
     (case entry of (pid, followers) \<Rightarrow>
        if followers \<noteq> [] then
          (case most_common_first (Counter followers) of
             Inl e \<Rightarrow> Inl e
           | Inr mc \<Rightarrow> Inr (dict_set pid (fst mc, snd mc) result))
        else Inr result)"

definition shop_analyze_product_sequences ::
  "cart list \<Rightarrow> py_error + (product_id, product_id \<times> nat) dict" where
  "shop_analyze_product_sequences carts =
     (case for_each carts scan_followers [] of
        Inl e \<Rightarrow> Inl e
      | Inr product_followers \<Rightarrow> for_each product_followers build_result [])"

subsection \<open>\<^verbatim>\<open>get_product_recommendations\<close>\<close>

definition collect_follower ::
  "product_id \<Rightarrow> cart \<Rightarrow> nat \<Rightarrow> product_id list \<Rightarrow> py_error + product_id list" where
  "collect_follower pid items i product_followers =
     (case py_index items i of Inl e \<Rightarrow> Inl e | Inr current \<Rightarrow>
        if current = pid then
          (case py_index items (i + 1) of Inl e \<Rightarrow> Inl e
           | Inr next_product_id \<Rightarrow> Inr (product_followers @ [next_product_id]))
        else Inr product_followers)"

definition collect_followers ::
  "product_id \<Rightarrow> cart \<Rightarrow> product_id list \<Rightarrow> py_error + product_id list" where
  "collect_followers pid items product_followers =
     for_each (py_range 0 (length items - 1)) (collect_follower pid items) product_followers"

definition get_product_recommendations ::
  "product_id \<Rightarrow> cart list \<Rightarrow> int \<Rightarrow> py_error + (product_id \<times> nat) list" where
  "get_product_recommendations pid carts limit =
     (case for_each carts (collect_followers pid) [] of
        Inl e \<Rightarrow> Inl e
      | Inr product_followers \<Rightarrow>
          if product_followers = [] then Inr []
          else Inr (most_common limit (Counter product_followers)))"

subsection \<open>\<^verbatim>\<open>get_cart_similarity_score\<close>\<close>

text \<open>
  \<^verbatim>\<open>intersection / union\<close> divides two Python integers and returns the float nearest
  to the exact quotient. The rounding is the parameter \<open>rnd\<close>; the theorems below
  use of it only that it is monotone and leaves 0 and 1 unchanged, which holds of
  rounding to nearest.
\<close>

definition py_truediv :: "(real \<Rightarrow> real) \<Rightarrow> nat \<Rightarrow> nat \<Rightarrow> py_error + real" where
  "py_truediv rnd a b = (if b = 0 then Inl ZeroDivisionError else Inr (rnd (real a / real b)))"

definition get_cart_similarity_score :: "(real \<Rightarrow> real) \<Rightarrow> cart \<Rightarrow> cart \<Rightarrow> py_error + real" where
  "get_cart_similarity_score rnd cart1 cart2 =
     (let items1 = set cart1; items2 = set cart2 in
      if items1 = {} \<and> items2 = {} then Inr 0
      else
        let intersection = card (items1 \<inter> items2);
            union = card (items1 \<union> items2)
        in if union > 0 then py_truediv rnd intersection union else Inr 0)"

subsection \<open>\<^verbatim>\<open>find_frequently_bought_together\<close>\<close>

text \<open>The two nested loops over the sorted identifiers of one cart:
  \<^verbatim>\<open>product_combinations[(product_ids[i], product_ids[j])] += 1\<close> for \<open>i < j\<close>.\<close>

definition count_pair ::
  "product_id list \<Rightarrow> nat \<Rightarrow> nat \<Rightarrow> (product_id \<times> product_id, nat) dict
     \<Rightarrow> py_error + (product_id \<times> product_id, nat) dict" where
  "count_pair product_ids i j product_combinations =
     (case py_index product_ids i of Inl e \<Rightarrow> Inl e | Inr a \<Rightarrow>
       (case py_index product_ids j of Inl e \<Rightarrow> Inl e | Inr b \<Rightarrow>
          Inr (counter_incr (a, b) product_combinations)))"

definition count_pairs_from ::
  "product_id list \<Rightarrow> nat \<Rightarrow> (product_id \<times> product_id, nat) dict
     \<Rightarrow> py_error + (product_id \<times> product_id, nat) dict" where
  "count_pairs_from product_ids i product_combinations =
     for_each (py_range (i + 1) (length product_ids)) (count_pair product_ids i)
       product_combinations"

definition count_cart_pairs ::
  "cart \<Rightarrow> (product_id \<times> product_id, nat) dict
     \<Rightarrow> py_error + (product_id \<times> product_id, nat) dict" where
  "count_cart_pairs items product_combinations =
     (let product_ids = sort items in
      for_each (py_range 0 (length product_ids)) (count_pairs_from product_ids)
        product_combinations)"

definition find_frequently_bought_together ::
  "cart list \<Rightarrow> int \<Rightarrow> py_error + ((product_id \<times> product_id) \<times> nat) list" where
  "find_frequently_bought_together carts min_frequency =
     (case for_each carts count_cart_pairs [] of
        Inl e \<Rightarrow> Inl e
      | Inr product_combinations \<Rightarrow>
          Inr (sorted_by_count_desc
                 (filter (\<lambda>(pair, cnt). int cnt \<ge> min_frequency) product_combinations)))"

section \<open>The loops as folds\<close>

text \<open>
  Every index the loops read is in range, so each loop is a fold over the values it reads:
  the adjacent pairs of a cart (\<open>adjacent\<close>) for the sequence analyses, and the pairs
  \<open>(ids[i], ids[j])\<close> with \<open>i < j\<close> (\<open>pairs_of\<close>) for the co-occurrence analysis. The
  definitions below name these folds; the lemmas that follow prove that the functions
  above compute them and never raise.
\<close>

definition adjacent :: "'a list \<Rightarrow> ('a \<times> 'a) list" where
  "adjacent xs = zip xs (tl xs)"

definition all_adjacent :: "'a list list \<Rightarrow> ('a \<times> 'a) list" where
  "all_adjacent carts = concat (map adjacent carts)"

definition followers_of :: "'a \<Rightarrow> 'a list list \<Rightarrow> 'a list" where
  "followers_of p carts = map snd (filter (\<lambda>xy. fst xy = p) (all_adjacent carts))"

fun pairs_of :: "'a list \<Rightarrow> ('a \<times> 'a) list" where
  "pairs_of [] = []"
| "pairs_of (x # xs) = map (Pair x) xs @ pairs_of xs"

definition all_pairs :: "cart list \<Rightarrow> (product_id \<times> product_id) list" where
  "all_pairs carts = concat (map (\<lambda>c. pairs_of (sort c)) carts)"

definition follower_step :: "'a \<times> 'a \<Rightarrow> ('a, 'a list) dict \<Rightarrow> ('a, 'a list) dict" where
  "follower_step xy pf = dict_update (fst xy) [] (\<lambda>fs. fs @ [snd xy]) pf"

definition predecessor_step :: "'a \<times> 'a \<Rightarrow> ('a, ('a, nat) dict) dict \<Rightarrow> ('a, ('a, nat) dict) dict" where
  "predecessor_step xy pc = dict_update (snd xy) [] (counter_incr (fst xy)) pc"

definition top_entry :: "('k, nat) dict \<Rightarrow> 'k \<times> nat" where
  "top_entry c = hd (sorted_by_count_desc c)"

definition build_result_pure ::
  "product_id \<times> product_id list \<Rightarrow> (product_id, product_id \<times> nat) dict
     \<Rightarrow> (product_id, product_id \<times> nat) dict" where
  "build_result_pure entry result =
     (if snd entry \<noteq> [] then dict_set (fst entry) (top_entry (Counter (snd entry))) result
      else result)"

definition stats_of :: "product_id \<Rightarrow> (product_id, nat) dict \<Rightarrow> ProductSequenceStats" where
  "stats_of pid predecessors =
     (if predecessors \<noteq> [] then
        \<lparr>product_id = pid, most_common_predecessor = Some (fst (top_entry predecessors)),
         occurrences = snd (top_entry predecessors)\<rparr>
      else \<lparr>product_id = pid, most_common_predecessor = None, occurrences = 0\<rparr>)"

definition build_stats_pure ::
  "product_id \<times> (product_id, nat) dict \<Rightarrow> (product_id, ProductSequenceStats) dict
     \<Rightarrow> (product_id, ProductSequenceStats) dict" where
  "build_stats_pure entry results = dict_set (fst entry) (stats_of (fst entry) (snd entry)) results"

subsection \<open>Notions used to state the properties\<close>

text \<open>
  \<open>pair_count\<close> is the number of times the loops of
  \<open>find_frequently_bought_together\<close> count a pair; \<open>carts_with_both\<close> is the number of
  carts that hold both products; \<open>first_seen\<close> lists the distinct elements of a list in
  the order of their first occurrence. \<open>sorted_by_count_then_pair\<close> follows the words
  of the specification: descending by count, ties in the canonical (lexicographic) order of
  the pairs.
\<close>

definition pair_count :: "cart list \<Rightarrow> product_id \<times> product_id \<Rightarrow> nat" where
  "pair_count carts pair = count_list (all_pairs carts) pair"

definition carts_with_both :: "product_id \<Rightarrow> product_id \<Rightarrow> cart list \<Rightarrow> nat" where
  "carts_with_both a b carts = length (filter (\<lambda>c. a \<in> set c \<and> b \<in> set c) carts)"

definition first_seen :: "'a list \<Rightarrow> 'a list" where
  "first_seen xs = rev (remdups (rev xs))"

definition pair_less_eq :: "product_id \<times> product_id \<Rightarrow> product_id \<times> product_id \<Rightarrow> bool" where
  "pair_less_eq p q \<longleftrightarrow> fst p < fst q \<or> (fst p = fst q \<and> snd p \<le> snd q)"

definition sorted_by_count_then_pair :: "((product_id \<times> product_id) \<times> nat) list \<Rightarrow> bool" where
  "sorted_by_count_then_pair out \<longleftrightarrow>
     sorted_wrt (\<lambda>x y. snd y < snd x \<or> (snd x = snd y \<and> pair_less_eq (fst x) (fst y))) out"

text \<open>\<open>follow_count p q carts\<close> is the number of positions, over all carts, at which
  \<open>q\<close> comes immediately after \<open>p\<close>.\<close>

definition follow_count :: "product_id \<Rightarrow> product_id \<Rightarrow> cart list \<Rightarrow> nat" where
  "follow_count p q carts =
     sum_list (map (\<lambda>c. length (filter (\<lambda>i. c ! i = p \<and> c ! Suc i = q) [0..<length c - 1]))
                carts)"

section \<open>Properties\<close>

subsection \<open>Loops, dictionaries and counters\<close>

lemma for_each_pure:
  assumes "\<And>x s. x \<in> set xs \<Longrightarrow> body x s = Inr (g x s)"
  shows "for_each xs body s = Inr (fold g xs s)"
  using assms by (induction xs arbitrary: s) auto

lemma adjacent_nth: "map (\<lambda>i. (c ! i, c ! Suc i)) [0..<length c - Suc 0] = adjacent c"
  by (auto simp: adjacent_def list_eq_iff_nth_eq nth_tl)

lemma adjacent_nth_pred: "map (\<lambda>i. (c ! (i - Suc 0), c ! i)) [Suc 0..<length c] = adjacent c"
  by (auto simp: adjacent_def list_eq_iff_nth_eq nth_tl)

lemma pairs_of_nth:
  "concat (map (\<lambda>i. map (\<lambda>j. (xs ! i, xs ! j)) [Suc i..<length xs]) [0..<length xs]) = pairs_of xs"
proof (induction xs)
  case Nil
  show ?case by simp
next
  case (Cons x xs)
  have inner: "map (\<lambda>j. (x, (x # xs) ! j)) [Suc 0..<Suc (length xs)] = map (Pair x) xs"
    by (rule nth_equalityI) (simp_all del: upt_Suc)
  have outer: "map (\<lambda>i. map (\<lambda>j. ((x # xs) ! i, (x # xs) ! j)) [Suc i..<Suc (length xs)])
                   [Suc 0..<Suc (length xs)]
             = map (\<lambda>i. map (\<lambda>j. (xs ! i, xs ! j)) [Suc i..<length xs]) [0..<length xs]"
  proof (rule nth_equalityI)
    show "length (map (\<lambda>i. map (\<lambda>j. ((x # xs) ! i, (x # xs) ! j)) [Suc i..<Suc (length xs)])
                   [Suc 0..<Suc (length xs)])
        = length (map (\<lambda>i. map (\<lambda>j. (xs ! i, xs ! j)) [Suc i..<length xs]) [0..<length xs])"
      by (simp del: upt_Suc)
  next
    fix i
    assume "i < length (map (\<lambda>i. map (\<lambda>j. ((x # xs) ! i, (x # xs) ! j)) [Suc i..<Suc (length xs)])
                   [Suc 0..<Suc (length xs)])"
    then have i: "i < length xs" by (simp del: upt_Suc)
    have "map (\<lambda>j. (xs ! i, (x # xs) ! j)) [Suc (Suc i)..<Suc (length xs)]
        = map (\<lambda>j. (xs ! i, xs ! j)) [Suc i..<length xs]"
      by (rule nth_equalityI) (simp_all del: upt_Suc)
    then show "map (\<lambda>i. map (\<lambda>j. ((x # xs) ! i, (x # xs) ! j)) [Suc i..<Suc (length xs)])
                   [Suc 0..<Suc (length xs)] ! i
        = map (\<lambda>i. map (\<lambda>j. (xs ! i, xs ! j)) [Suc i..<length xs]) [0..<length xs] ! i"
      using i by (simp del: upt_Suc)
  qed
  have split: "[0..<length (x # xs)] = 0 # [Suc 0..<Suc (length xs)]"
    by (simp add: upt_conv_Cons del: upt_Suc)
  show ?case
    unfolding split using inner outer Cons.IH by (simp del: upt_Suc)
qed

lemma map_of_dict_update:
  "map_of (dict_update k d f m) = (map_of m)(k \<mapsto> f (case map_of m k of None \<Rightarrow> d | Some v \<Rightarrow> v))"
  by (induction m) (auto simp: fun_eq_iff)

lemma keys_dict_update:
  "map fst (dict_update k d f m) = (if k \<in> fst ` set m then map fst m else map fst m @ [k])"
proof (induction m)
  case Nil
  show ?case by simp
next
  case (Cons kv m)
  obtain k' v where kv: "kv = (k', v)" by (cases kv)
  show ?case
  proof (cases "k' = k")
    case True
    then show ?thesis by (simp add: kv)
  next
    case False
    then show ?thesis using Cons.IH by (simp add: kv)
  qed
qed

lemma keys_set_dict_update: "fst ` set (dict_update k d f m) = insert k (fst ` set m)"
proof -
  have "set (map fst (dict_update k d f m)) = insert k (set (map fst m))"
    unfolding keys_dict_update by auto
  then show ?thesis by simp
qed

lemma distinct_dict_update:
  "distinct (map fst m) \<Longrightarrow> distinct (map fst (dict_update k d f m))"
  by (simp add: keys_dict_update)

lemma map_of_dict_set: "map_of (dict_set k v m) = (map_of m)(k \<mapsto> v)"
  by (simp add: dict_set_def map_of_dict_update)

lemma keys_fold_counter_incr:
  "set (map fst (fold counter_incr xs c)) = set xs \<union> fst ` set c"
  by (induction xs arbitrary: c) (simp_all add: counter_incr_def keys_set_dict_update)

lemma distinct_fold_counter_incr:
  "distinct (map fst c) \<Longrightarrow> distinct (map fst (fold counter_incr xs c))"
  by (induction xs arbitrary: c) (auto simp: counter_incr_def distinct_dict_update)

lemma map_of_counter_incr:
  "map_of (counter_incr x c) = (map_of c)(x \<mapsto> Suc (case map_of c x of None \<Rightarrow> 0 | Some n \<Rightarrow> n))"
  by (simp add: counter_incr_def map_of_dict_update)

lemma map_of_fold_counter_incr:
  "map_of (fold counter_incr xs c) k =
     (case map_of c k of
        None \<Rightarrow> if k \<in> set xs then Some (count_list xs k) else None
      | Some n \<Rightarrow> Some (count_list xs k + n))"
proof (induction xs arbitrary: c)
  case Nil
  show ?case by (simp split: option.split)
next
  case (Cons x xs)
  show ?case
    using Cons.IH [of "counter_incr x c"]
    by (simp add: map_of_counter_incr split: option.split)
qed

lemma distinct_Counter: "distinct (map fst (Counter xs))"
  by (simp add: Counter_def distinct_fold_counter_incr)

lemma map_of_Counter:
  "map_of (Counter xs) k = (if k \<in> set xs then Some (count_list xs k) else None)"
  by (simp add: Counter_def map_of_fold_counter_incr)

lemma Counter_entry_iff: "(k, n) \<in> set (Counter xs) \<longleftrightarrow> k \<in> set xs \<and> n = count_list xs k"
  by (simp add: map_of_eq_Some_iff [OF distinct_Counter, symmetric] map_of_Counter) auto

lemma keys_Counter: "fst ` set (Counter xs) = set xs"
  using keys_fold_counter_incr [of xs "[]"] by (simp add: Counter_def)

lemma Counter_eq_Nil_iff: "Counter xs = [] \<longleftrightarrow> xs = []"
proof -
  have "fst ` set (Counter xs) = {} \<longleftrightarrow> set (Counter xs) = {}"
    by (rule image_is_empty)
  then have "set (Counter xs) = {} \<longleftrightarrow> set xs = {}"
    by (simp only: keys_Counter)
  then show ?thesis by simp
qed

lemma set_sorted_by_count_desc: "set (sorted_by_count_desc es) = set es"
  by (simp add: sorted_by_count_desc_def)

lemma mset_sorted_by_count_desc: "mset (sorted_by_count_desc es) = mset es"
  by (simp add: sorted_by_count_desc_def)

lemma length_sorted_by_count_desc: "length (sorted_by_count_desc es) = length es"
  by (simp add: sorted_by_count_desc_def)

lemma distinct_keys_sorted_by_count_desc:
  "distinct (map fst (sorted_by_count_desc es)) = distinct (map fst es)"
proof -
  have "mset (map fst (sorted_by_count_desc es)) = mset (map fst es)"
    by (simp add: mset_sorted_by_count_desc)
  then show ?thesis by (rule mset_eq_imp_distinct_iff)
qed

lemma sorted_sorted_by_count_desc:
  "sorted_wrt (\<lambda>x y. snd y \<le> snd x) (sorted_by_count_desc es)"
proof -
  have "sorted (map (\<lambda>x. - int (snd x)) (sorted_by_count_desc es))"
    by (simp add: sorted_by_count_desc_def)
  then show ?thesis by (simp add: sorted_map)
qed

lemma stable_sorted_by_count_desc:
  "filter (\<lambda>x. snd x = n) (sorted_by_count_desc es) = filter (\<lambda>x. snd x = n) es"
  using sort_key_stable [of "\<lambda>x. - int (snd x)" "- int n" es]
  by (simp add: sorted_by_count_desc_def)

lemma fold_concat_eq: "fold f (concat xss) = fold (fold f) xss"
  by (induction xss) simp_all

lemma most_common_first_eq:
  "most_common_first c = (if c = [] then Inl IndexError else Inr (top_entry c))"
proof (cases "c = []")
  case True
  then show ?thesis
    by (simp add: most_common_first_def most_common_def py_index_def sorted_by_count_desc_def)
next
  case False
  then have ne: "sorted_by_count_desc c \<noteq> []"
    using length_sorted_by_count_desc [of c] by auto
  then show ?thesis
    using False
    by (simp add: most_common_first_def most_common_def py_index_def top_entry_def hd_conv_nth)
qed

lemma build_result_eq: "build_result entry result = Inr (build_result_pure entry result)"
  by (cases entry)
     (simp add: build_result_def build_result_pure_def most_common_first_eq Counter_eq_Nil_iff)

lemma build_stats_eq: "build_stats entry results = Inr (build_stats_pure entry results)"
  by (cases entry, cases "top_entry (snd entry)")
     (simp add: build_stats_def build_stats_pure_def stats_of_def most_common_first_eq)

lemma scan_followers_eq:
  "scan_followers items pf = Inr (fold follower_step (adjacent items) pf)"
proof -
  have "for_each [0..<length items - 1] (record_follower items) pf
      = Inr (fold (\<lambda>i. follower_step (items ! i, items ! Suc i)) [0..<length items - 1] pf)"
    by (rule for_each_pure) (simp add: record_follower_def py_index_def follower_step_def)
  moreover have "fold (\<lambda>i. follower_step (items ! i, items ! Suc i)) [0..<length items - 1] pf
      = fold follower_step (map (\<lambda>i. (items ! i, items ! Suc i)) [0..<length items - 1]) pf"
    by (simp add: fold_map comp_def)
  ultimately show ?thesis
    by (simp add: scan_followers_def py_range_def adjacent_nth)
qed

lemma scan_predecessors_eq:
  "scan_predecessors sequence pc = Inr (fold predecessor_step (adjacent sequence) pc)"
proof -
  have "for_each [1..<length sequence] (count_predecessor sequence) pc
      = Inr (fold (\<lambda>i. predecessor_step (sequence ! (i - 1), sequence ! i)) [1..<length sequence] pc)"
    by (rule for_each_pure) (auto simp: count_predecessor_def py_index_def predecessor_step_def)
  moreover have "fold (\<lambda>i. predecessor_step (sequence ! (i - 1), sequence ! i)) [1..<length sequence] pc
      = fold predecessor_step (map (\<lambda>i. (sequence ! (i - 1), sequence ! i)) [1..<length sequence]) pc"
    by (simp add: fold_map comp_def)
  ultimately show ?thesis
    by (simp add: scan_predecessors_def py_range_def adjacent_nth_pred)
qed

lemma fold_append_followers:
  "fold (\<lambda>xy acc. if fst xy = p then acc @ [snd xy] else acc) ps acc
     = acc @ map snd (filter (\<lambda>xy. fst xy = p) ps)"
  by (induction ps arbitrary: acc) auto

lemma collect_followers_eq:
  "collect_followers p items acc = Inr (acc @ map snd (filter (\<lambda>xy. fst xy = p) (adjacent items)))"
proof -
  have "for_each [0..<length items - 1] (collect_follower p items) acc
      = Inr (fold (\<lambda>i acc. if fst (items ! i, items ! Suc i) = p
                            then acc @ [snd (items ! i, items ! Suc i)] else acc)
               [0..<length items - 1] acc)"
    by (rule for_each_pure) (auto simp: collect_follower_def py_index_def)
  moreover have "fold (\<lambda>i acc. if fst (items ! i, items ! Suc i) = p
                            then acc @ [snd (items ! i, items ! Suc i)] else acc)
               [0..<length items - 1] acc
      = fold (\<lambda>xy acc. if fst xy = p then acc @ [snd xy] else acc)
          (map (\<lambda>i. (items ! i, items ! Suc i)) [0..<length items - 1]) acc"
    by (simp add: fold_map comp_def)
  ultimately show ?thesis
    by (simp add: collect_followers_def py_range_def adjacent_nth fold_append_followers)
qed

lemma count_pairs_from_eq:
  assumes "i < length ids"
  shows "count_pairs_from ids i pc
     = Inr (fold counter_incr (map (\<lambda>j. (ids ! i, ids ! j)) [Suc i..<length ids]) pc)"
proof -
  have "for_each [Suc i..<length ids] (count_pair ids i) pc
      = Inr (fold (\<lambda>j. counter_incr (ids ! i, ids ! j)) [Suc i..<length ids] pc)"
    using assms by (intro for_each_pure) (simp add: count_pair_def py_index_def)
  then show ?thesis
    by (simp add: count_pairs_from_def py_range_def fold_map comp_def)
qed

lemma count_cart_pairs_eq:
  "count_cart_pairs items pc = Inr (fold counter_incr (pairs_of (sort items)) pc)"
proof -
  define ids where "ids = sort items"
  have "for_each [0..<length ids] (count_pairs_from ids) pc
      = Inr (fold (\<lambda>i. fold counter_incr (map (\<lambda>j. (ids ! i, ids ! j)) [Suc i..<length ids]))
               [0..<length ids] pc)"
    by (rule for_each_pure) (simp add: count_pairs_from_eq)
  moreover have "fold (\<lambda>i. fold counter_incr (map (\<lambda>j. (ids ! i, ids ! j)) [Suc i..<length ids]))
               [0..<length ids] pc
      = fold counter_incr
          (concat (map (\<lambda>i. map (\<lambda>j. (ids ! i, ids ! j)) [Suc i..<length ids]) [0..<length ids])) pc"
    by (simp add: fold_concat_eq fold_map comp_def)
  ultimately have "for_each [0..<length ids] (count_pairs_from ids) pc
      = Inr (fold counter_incr (pairs_of ids) pc)"
    by (simp only: pairs_of_nth)
  then show ?thesis
    unfolding count_cart_pairs_def py_range_def Let_def ids_def .
qed

lemma shop_product_followers_eq:
  "for_each carts scan_followers pf = Inr (fold follower_step (all_adjacent carts) pf)"
proof -
  have "for_each carts scan_followers pf = Inr (fold (\<lambda>c. fold follower_step (adjacent c)) carts pf)"
    by (rule for_each_pure) (simp add: scan_followers_eq)
  then show ?thesis
    by (simp add: all_adjacent_def fold_concat_eq fold_map comp_def)
qed

lemma predecessor_counts_eq:
  "for_each carts scan_predecessors pc = Inr (fold predecessor_step (all_adjacent carts) pc)"
proof -
  have "for_each carts scan_predecessors pc
      = Inr (fold (\<lambda>c. fold predecessor_step (adjacent c)) carts pc)"
    by (rule for_each_pure) (simp add: scan_predecessors_eq)
  then show ?thesis
    by (simp add: all_adjacent_def fold_concat_eq fold_map comp_def)
qed

lemma collected_followers_eq:
  "for_each carts (collect_followers p) acc = Inr (acc @ followers_of p carts)"
proof -
  have "for_each carts (collect_followers p) acc
      = Inr (fold (\<lambda>c acc. acc @ map snd (filter (\<lambda>xy. fst xy = p) (adjacent c))) carts acc)"
    by (rule for_each_pure) (simp add: collect_followers_eq)
  moreover have "fold (\<lambda>c acc. acc @ map snd (filter (\<lambda>xy. fst xy = p) (adjacent c))) carts acc
      = acc @ followers_of p carts"
    by (induction carts arbitrary: acc) (simp_all add: followers_of_def all_adjacent_def)
  ultimately show ?thesis by simp
qed

lemma product_combinations_eq:
  "for_each carts count_cart_pairs pc = Inr (fold counter_incr (all_pairs carts) pc)"
proof -
  have "for_each carts count_cart_pairs pc
      = Inr (fold (\<lambda>c. fold counter_incr (pairs_of (sort c))) carts pc)"
    by (rule for_each_pure) (simp add: count_cart_pairs_eq)
  then show ?thesis
    by (simp add: all_pairs_def fold_concat_eq fold_map comp_def)
qed

lemma get_product_recommendations_eq:
  "get_product_recommendations p carts limit
     = Inr (most_common limit (Counter (followers_of p carts)))"
  by (simp add: get_product_recommendations_def collected_followers_eq most_common_def
        sorted_by_count_desc_def Counter_def)

lemma find_frequently_bought_together_eq:
  "find_frequently_bought_together carts m
     = Inr (sorted_by_count_desc (filter (\<lambda>e. m \<le> int (snd e)) (Counter (all_pairs carts))))"
  by (simp add: find_frequently_bought_together_def product_combinations_eq Counter_def
        case_prod_unfold)

lemma shop_analyze_product_sequences_eq:
  "shop_analyze_product_sequences carts
     = Inr (fold build_result_pure (fold follower_step (all_adjacent carts) []) [])"
proof -
  have "for_each pf build_result res = Inr (fold build_result_pure pf res)" for pf res
    by (rule for_each_pure) (simp add: build_result_eq)
  then show ?thesis
    by (simp add: shop_analyze_product_sequences_def shop_product_followers_eq)
qed

lemma analyze_product_sequences_eq:
  "analyze_product_sequences carts
     = Inr (fold build_stats_pure (fold predecessor_step (all_adjacent carts) []) [])"
proof -
  have "for_each pc build_stats res = Inr (fold build_stats_pure pc res)" for pc res
    by (rule for_each_pure) (simp add: build_stats_eq)
  then show ?thesis
    by (simp add: analyze_product_sequences_def predecessor_counts_eq)
qed

subsection \<open>Totality\<close>

lemma get_cart_similarity_score_eq:
  "get_cart_similarity_score rnd cart1 cart2 =
     Inr (if set cart1 \<union> set cart2 = {} then 0
          else rnd (real (card (set cart1 \<inter> set cart2)) / real (card (set cart1 \<union> set cart2))))"
  by (simp add: get_cart_similarity_score_def py_truediv_def Let_def card_gt_0_iff)

text \<open>
  Claim C9. All four analyses (the predecessor analysis of the standalone module and of the
  API layer, the follower recommendation, the co-occurrence analysis and the cart
  similarity) return a result on every input and never raise: every list index the loops
  read is in range, \<^verbatim>\<open>most_common(1)[0]\<close> is only taken of a non-empty counter, and the
  division is only made by a positive number. This holds for all cart collections, in
  particular for empty collections, empty carts, singleton carts and carts of duplicated
  products.
\<close>

theorem analyses_total:
  "(\<exists>r. analyze_product_sequences carts = Inr r)
   \<and> (\<exists>r. shop_analyze_product_sequences carts = Inr r)
   \<and> (\<exists>r. get_product_recommendations p carts limit = Inr r)
   \<and> (\<exists>r. find_frequently_bought_together carts m = Inr r)
   \<and> (\<exists>r. get_cart_similarity_score rnd cart1 cart2 = Inr r)"
  by (simp add: analyze_product_sequences_eq shop_analyze_product_sequences_eq
        get_product_recommendations_eq find_frequently_bought_together_eq
        get_cart_similarity_score_eq)

subsection \<open>The example of four carts\<close>

lemma example_all_adjacent: "all_adjacent [[''A'', ''B''], [''A'', ''B''], [''A'', ''C''], [''C'', ''B'']]
   = [(''A'', ''B''), (''A'', ''B''), (''A'', ''C''), (''C'', ''B'')]"
  by (simp add: all_adjacent_def adjacent_def)

lemma example_product_followers: "fold follower_step [(''A'', ''B''), (''A'', ''B''), (''A'', ''C''), (''C'', ''B'')] []
   = [(''A'', [''B'', ''B'', ''C'']), (''C'', [''B''])]"
  by (simp add: follower_step_def)

lemma example_predecessor_counts: "fold predecessor_step [(''A'', ''B''), (''A'', ''B''), (''A'', ''C''), (''C'', ''B'')] []
   = [(''B'', [(''A'', 2), (''C'', 1)]), (''C'', [(''A'', 1)])]"
  by (simp add: predecessor_step_def counter_incr_def)

lemma example_Counter_BBC: "Counter [''B'', ''B'', ''C''] = [(''B'', 2), (''C'', 1)]"
  by (simp add: Counter_def counter_incr_def)

lemma example_Counter_B: "Counter [''B''] = [(''B'', 1)]"
  by (simp add: Counter_def counter_incr_def)

lemma example_top_BC: "top_entry [(''B'', 2), (''C'', Suc 0)] = (''B'', 2)"
  by (simp add: top_entry_def sorted_by_count_desc_def)

lemma example_top_AC: "top_entry [(''A'', 2), (''C'', Suc 0)] = (''A'', 2)"
  by (simp add: top_entry_def sorted_by_count_desc_def)

lemma top_entry_single: "top_entry [(k, Suc 0)] = (k, Suc 0)"
  by (simp add: top_entry_def sorted_by_count_desc_def)

lemma example_build_result: "fold build_result_pure [(''A'', [''B'', ''B'', ''C'']), (''C'', [''B''])] []
   = [(''A'', (''B'', 2)), (''C'', (''B'', 1))]"
  by (simp add: build_result_pure_def dict_set_def example_Counter_BBC example_Counter_B example_top_BC top_entry_single)

lemma example_build_stats: "fold build_stats_pure [(''B'', [(''A'', 2), (''C'', 1)]), (''C'', [(''A'', 1)])] []
   = [(''B'', \<lparr>product_id = ''B'', most_common_predecessor = Some ''A'', occurrences = 2\<rparr>),
      (''C'', \<lparr>product_id = ''C'', most_common_predecessor = Some ''A'', occurrences = 1\<rparr>)]"
  by (simp add: build_stats_pure_def stats_of_def dict_set_def example_top_AC top_entry_single)

text \<open>
  Claim C2, as amended. For the carts \<open>[A,B]\<close>, \<open>[A,B]\<close>, \<open>[A,C]\<close>, \<open>[C,B]\<close> the
  predecessor analysis of the standalone module returns the entry of \<open>B\<close> with most common
  predecessor \<open>A\<close> and 2 occurrences, the entry of \<open>C\<close> with predecessor \<open>A\<close> and 1
  occurrence, and no entry for \<open>A\<close>. The function of the same name in the API layer
  records followers instead: it returns \<open>A\<close> with most common follower \<open>B\<close> (2 times),
  \<open>C\<close> with follower \<open>B\<close> (once), and no entry for \<open>B\<close>.
\<close>

theorem predecessor_example:
  "analyze_product_sequences [[''A'', ''B''], [''A'', ''B''], [''A'', ''C''], [''C'', ''B'']]
     = Inr [(''B'', \<lparr>product_id = ''B'', most_common_predecessor = Some ''A'', occurrences = 2\<rparr>),
            (''C'', \<lparr>product_id = ''C'', most_common_predecessor = Some ''A'', occurrences = 1\<rparr>)]
   \<and> shop_analyze_product_sequences [[''A'', ''B''], [''A'', ''B''], [''A'', ''C''], [''C'', ''B'']]
     = Inr [(''A'', (''B'', 2)), (''C'', (''B'', 1))]"
  unfolding analyze_product_sequences_eq shop_analyze_product_sequences_eq example_all_adjacent example_product_followers example_predecessor_counts example_build_result example_build_stats
  by simp

text \<open>The claim as stated fails for the API layer's function: its result has no entry
  for \<open>B\<close> and has an entry for \<open>A\<close>.\<close>

theorem predecessor_example_shop_counterexample:
  "shop_analyze_product_sequences [[''A'', ''B''], [''A'', ''B''], [''A'', ''C''], [''C'', ''B'']]
     = Inr [(''A'', (''B'', 2)), (''C'', (''B'', 1))]
   \<and> map_of [(''A'', (''B'', 2 :: nat)), (''C'', (''B'', 1))] ''B'' = None
   \<and> map_of [(''A'', (''B'', 2 :: nat)), (''C'', (''B'', 1))] ''A'' \<noteq> None"
  unfolding shop_analyze_product_sequences_eq example_all_adjacent example_product_followers example_build_result by simp

subsection \<open>Co-occurrence does not depend on the order inside a cart\<close>

lemma sort_eq_of_mset_eq: "mset c = mset c' \<Longrightarrow> sort c = sort c'"
  by (rule properties_for_sort) simp_all

lemma all_pairs_Cons: "all_pairs (c # carts) = pairs_of (sort c) @ all_pairs carts"
  by (simp add: all_pairs_def)

lemma all_pairs_permuted:
  "list_all2 (\<lambda>c c'. mset c = mset c') carts carts' \<Longrightarrow> all_pairs carts = all_pairs carts'"
proof (induction rule: list_all2_induct)
  case Nil
  show ?case by simp
next
  case (Cons c carts c' carts')
  have "sort c = sort c'"
    using Cons.hyps(1) by (rule sort_eq_of_mset_eq)
  with Cons.IH show ?case
    by (simp only: all_pairs_Cons)
qed

lemma sort_two:
  fixes a b :: "'a :: linorder"
  assumes "a < b"
  shows "sort [a, b] = [a, b]" and "sort [b, a] = [a, b]"
  using assms by auto

lemma Counter_twice: "Counter [k, k] = [(k, 2)]"
  by (simp add: Counter_def counter_incr_def)

lemma sorted_by_count_desc_single: "sorted_by_count_desc [e] = [e]"
  by (simp add: sorted_by_count_desc_def)

text \<open>
  Claim C4. Two carts holding the same two distinct products in opposite orders give
  exactly one pair, in canonical order, with count 2 (for every minimum frequency up to
  2); and replacing every cart by a permutation of itself leaves the output of
  \<open>find_frequently_bought_together\<close> unchanged.
\<close>

theorem co_occurrence_order_independent:
  "(a < b \<longrightarrow> m \<le> 2 \<longrightarrow>
      find_frequently_bought_together [[a, b], [b, a]] m = Inr [((a, b), 2)])
   \<and> (list_all2 (\<lambda>c c'. mset c = mset c') carts carts' \<longrightarrow>
        find_frequently_bought_together carts m = find_frequently_bought_together carts' m)"
proof (intro conjI impI)
  assume ab: "a < b" and m: "m \<le> 2"
  have "all_pairs [[a, b], [b, a]] = [(a, b), (a, b)]"
    unfolding all_pairs_def using sort_two [OF ab] by simp
  then have "find_frequently_bought_together [[a, b], [b, a]] m
      = Inr (sorted_by_count_desc (filter (\<lambda>e. m \<le> int (snd e)) [((a, b), 2)]))"
    by (simp only: find_frequently_bought_together_eq Counter_twice)
  also have "filter (\<lambda>e. m \<le> int (snd e)) [((a, b), 2 :: nat)] = [((a, b), 2)]"
    using m by simp
  finally show "find_frequently_bought_together [[a, b], [b, a]] m = Inr [((a, b), 2)]"
    by (simp only: sorted_by_count_desc_single)
next
  assume "list_all2 (\<lambda>c c'. mset c = mset c') carts carts'"
  then have "all_pairs carts = all_pairs carts'"
    by (rule all_pairs_permuted)
  then show "find_frequently_bought_together carts m = find_frequently_bought_together carts' m"
    by (simp only: find_frequently_bought_together_eq)
qed

theorem co_occurrence_order_independent_witness:
  "find_frequently_bought_together [[''A'', ''B''], [''B'', ''A'']] 2 = Inr [((''A'', ''B''), 2)]
   \<and> find_frequently_bought_together [[''A'', ''B'', ''C''], [''B'', ''A'']] 2
     = find_frequently_bought_together [[''C'', ''A'', ''B''], [''A'', ''B'']] 2"
  using co_occurrence_order_independent
          [of "''A''" "''B''" 2 "[[''A'', ''B'', ''C''], [''B'', ''A'']]"
              "[[''C'', ''A'', ''B''], [''A'', ''B'']]"]
  by simp

subsection \<open>Cart similarity\<close>

text \<open>
  Claim C5. The similarity of two carts is the Jaccard coefficient of their sets of distinct
  products, rounded to a float: it lies between 0 and 1, it is symmetric, two empty carts
  give 0, and a non-empty cart compared with itself gives 1. The rounding \<open>rnd\<close> of the
  division is assumed monotone with \<open>rnd 0 = 0\<close> and \<open>rnd 1 = 1\<close>.
\<close>

theorem cart_similarity_jaccard:
  assumes "mono rnd" and "rnd 0 = 0" and "rnd 1 = 1"
  shows "\<exists>s. get_cart_similarity_score rnd X Y = Inr s
     \<and> (set X \<union> set Y \<noteq> {} \<longrightarrow>
          s = rnd (real (card (set X \<inter> set Y)) / real (card (set X \<union> set Y))))
     \<and> 0 \<le> s \<and> s \<le> 1
     \<and> get_cart_similarity_score rnd Y X = Inr s
     \<and> get_cart_similarity_score rnd [] [] = Inr 0
     \<and> (X \<noteq> [] \<longrightarrow> get_cart_similarity_score rnd X X = Inr 1)"
proof -
  define q where "q = real (card (set X \<inter> set Y)) / real (card (set X \<union> set Y))"
  have "card (set X \<inter> set Y) \<le> card (set X \<union> set Y)"
    by (rule card_mono) auto
  then have q: "0 \<le> q" "q \<le> 1"
    by (auto simp: q_def divide_le_eq_1 card_gt_0_iff)
  have "rnd 0 \<le> rnd q" and "rnd q \<le> rnd 1"
    using q assms(1) by (auto dest: monoD)
  then have r: "0 \<le> rnd q" "rnd q \<le> 1"
    using assms by simp_all
  have self: "X \<noteq> [] \<longrightarrow> get_cart_similarity_score rnd X X = Inr 1"
    using assms(3) by (simp add: get_cart_similarity_score_eq card_gt_0_iff)
  have empty: "get_cart_similarity_score rnd [] [] = Inr 0"
    by (simp add: get_cart_similarity_score_eq)
  show ?thesis
  proof (cases "set X \<union> set Y = {}")
    case True
    then show ?thesis
      using self empty by (simp add: get_cart_similarity_score_eq)
  next
    case False
    then have "get_cart_similarity_score rnd X Y = Inr (rnd q)"
      and "get_cart_similarity_score rnd Y X = Inr (rnd q)"
      by (simp_all add: get_cart_similarity_score_eq q_def Int_commute Un_commute assms(2))
    then show ?thesis
      using r self empty by (simp add: q_def)
  qed
qed

theorem cart_similarity_jaccard_witness:
  "\<exists>s. get_cart_similarity_score (\<lambda>x. x) [''A'', ''B''] [''B'', ''C''] = Inr s
     \<and> 0 \<le> s \<and> s \<le> 1
     \<and> get_cart_similarity_score (\<lambda>x. x) [''B'', ''C''] [''A'', ''B''] = Inr s
     \<and> get_cart_similarity_score (\<lambda>x. x) [''A'', ''B''] [''A'', ''B''] = Inr 1"
  using cart_similarity_jaccard [of "\<lambda>x. x" "[''A'', ''B'']" "[''B'', ''C'']"]
  by (simp add: mono_def)

subsection \<open>The output of the co-occurrence analysis\<close>

lemma count_list_pos_iff: "0 < count_list xs k \<longleftrightarrow> k \<in> set xs"
  by (induction xs) auto

lemma fbt_output_iff:
  "(pair, n) \<in> set (sorted_by_count_desc (filter (\<lambda>e. m \<le> int (snd e)) (Counter (all_pairs carts))))
     \<longleftrightarrow> n = pair_count carts pair \<and> 0 < n \<and> m \<le> int n"
  by (auto simp: set_sorted_by_count_desc Counter_entry_iff pair_count_def count_list_pos_iff)

lemma example_fbt_duplicate:
  "find_frequently_bought_together [[''A'', ''A'', ''B'']] 1
     = Inr [((''A'', ''B''), 2), ((''A'', ''A''), 1)]"
  by code_simp

lemma example_fbt_ties:
  "find_frequently_bought_together [[''C'', ''D''], [''C'', ''D''], [''A'', ''B''], [''A'', ''B'']] 2
     = Inr [((''C'', ''D''), 2), ((''A'', ''B''), 2)]"
  by code_simp

lemma example_fbt_three_1:
  "find_frequently_bought_together [[''A'', ''B''], [''A'', ''B''], [''A'', ''C'']] 1
     = Inr [((''A'', ''B''), 2), ((''A'', ''C''), 1)]"
  by code_simp

lemma example_fbt_three_2:
  "find_frequently_bought_together [[''A'', ''B''], [''A'', ''B''], [''A'', ''C'']] 2
     = Inr [((''A'', ''B''), 2)]"
  by code_simp

text \<open>
  Claim C8. An entry \<open>(pair, n)\<close> is in the output of
  \<open>find_frequently_bought_together carts m\<close> exactly when \<open>n\<close> is the count of the pair,
  the pair was counted at all and \<open>m \<le> n\<close>; so no pair with a count below the minimum
  frequency appears, and the output for a larger minimum frequency is a subset of the output
  for a smaller one.
\<close>

theorem min_frequency_filter:
  "\<exists>out. find_frequently_bought_together carts m = Inr out
     \<and> (\<forall>pair n. (pair, n) \<in> set out \<longleftrightarrow> n = pair_count carts pair \<and> 0 < n \<and> m \<le> int n)
     \<and> (\<forall>e \<in> set out. m \<le> int (snd e))
     \<and> (\<forall>m2 out2. m \<le> m2 \<longrightarrow> find_frequently_bought_together carts m2 = Inr out2
           \<longrightarrow> set out2 \<subseteq> set out \<and> fst ` set out2 \<subseteq> fst ` set out)"
proof -
  define out where
    "out = sorted_by_count_desc (filter (\<lambda>e. m \<le> int (snd e)) (Counter (all_pairs carts)))"
  have eq: "find_frequently_bought_together carts m = Inr out"
    by (simp add: find_frequently_bought_together_eq out_def)
  have iff: "(pair, n) \<in> set out \<longleftrightarrow> n = pair_count carts pair \<and> 0 < n \<and> m \<le> int n" for pair n
    unfolding out_def by (rule fbt_output_iff)
  have ge: "\<forall>e \<in> set out. m \<le> int (snd e)"
    using iff by (metis prod.collapse)
  have anti: "set out2 \<subseteq> set out \<and> fst ` set out2 \<subseteq> fst ` set out"
    if "m \<le> m2" and "find_frequently_bought_together carts m2 = Inr out2" for m2 out2
  proof -
    have out2: "out2 = sorted_by_count_desc (filter (\<lambda>e. m2 \<le> int (snd e)) (Counter (all_pairs carts)))"
      using that(2) by (simp add: find_frequently_bought_together_eq)
    have "e \<in> set out" if "e \<in> set out2" for e
    proof -
      obtain pair n where e: "e = (pair, n)" by (cases e)
      have "(pair, n) \<in> set out2"
        using that e by simp
      then have "n = pair_count carts pair \<and> 0 < n \<and> m2 \<le> int n"
        unfolding out2 fbt_output_iff .
      then show ?thesis
        using \<open>m \<le> m2\<close> by (simp add: e iff)
    qed
    then show ?thesis by auto
  qed
  show ?thesis
    using eq iff ge anti by blast
qed

theorem min_frequency_filter_witness:
  "\<exists>out. find_frequently_bought_together [[''A'', ''B''], [''A'', ''B''], [''A'', ''C'']] 1 = Inr out
     \<and> ((''A'', ''B''), 2) \<in> set out
     \<and> pair_count [[''A'', ''B''], [''A'', ''B''], [''A'', ''C'']] (''A'', ''B'') = 2
     \<and> set [((''A'', ''B''), 2)] \<subseteq> set out"
proof -
  let ?X = "[[''A'', ''B''], [''A'', ''B''], [''A'', ''C'']]"
  from min_frequency_filter [of ?X 1]
  obtain out where o: "find_frequently_bought_together ?X 1 = Inr out
     \<and> (\<forall>pair n. (pair, n) \<in> set out \<longleftrightarrow> n = pair_count ?X pair \<and> 0 < n \<and> 1 \<le> int n)
     \<and> (\<forall>e \<in> set out. 1 \<le> int (snd e))
     \<and> (\<forall>m2 out2. 1 \<le> m2 \<longrightarrow> find_frequently_bought_together ?X m2 = Inr out2
           \<longrightarrow> set out2 \<subseteq> set out \<and> fst ` set out2 \<subseteq> fst ` set out)"
    by (erule exE)
  have out: "find_frequently_bought_together ?X 1 = Inr out"
    using o by (rule conjunct1)
  have iff: "((''A'', ''B''), 2) \<in> set out
       \<longleftrightarrow> 2 = pair_count ?X (''A'', ''B'') \<and> (0::nat) < 2 \<and> (1::int) \<le> int 2"
    using o by (elim conjE allE) assumption
  have anti: "(1::int) \<le> 2 \<longrightarrow> find_frequently_bought_together ?X 2 = Inr [((''A'', ''B''), 2)]
           \<longrightarrow> set [((''A'', ''B''), 2)] \<subseteq> set out"
    using o by (elim conjE allE) (rule impI, rule impI, drule (1) mp, drule (1) mp, erule conjunct1)
  have ev: "out = [((''A'', ''B''), 2), ((''A'', ''C''), 1)]"
    using out unfolding example_fbt_three_1 by simp
  have mem: "((''A'', ''B''), 2) \<in> set out"
    unfolding ev by simp
  from iff mem have "2 = pair_count ?X (''A'', ''B'') \<and> (0::nat) < 2 \<and> (1::int) \<le> int 2"
    by (rule iffD1)
  then have pc: "pair_count ?X (''A'', ''B'') = 2"
    by (elim conjE) (erule sym)
  have sub: "set [((''A'', ''B''), 2)] \<subseteq> set out"
    using anti example_fbt_three_2 by (elim impE) (simp, assumption, assumption)
  show ?thesis
    using out mem pc sub by (intro exI [of _ out] conjI)
qed

lemma Counter_snoc: "Counter (xs @ [x]) = counter_incr x (Counter xs)"
  by (simp add: Counter_def)

lemma first_seen_snoc:
  "first_seen (xs @ [x]) = (if x \<in> set xs then first_seen xs else first_seen xs @ [x])"
  by (simp add: first_seen_def)

lemma keys_Counter_first_seen: "map fst (Counter xs) = first_seen xs"
proof (induction xs rule: rev_induct)
  case Nil
  show ?case by (simp add: Counter_def first_seen_def)
next
  case (snoc x xs)
  then show ?case
    by (simp add: Counter_snoc first_seen_snoc counter_incr_def keys_dict_update keys_Counter)
qed

lemma Counter_eq_map: "Counter xs = map (\<lambda>k. (k, count_list xs k)) (first_seen xs)"
proof -
  have "map (\<lambda>e. (fst e, count_list xs (fst e))) (Counter xs) = map (\<lambda>e. e) (Counter xs)"
    by (rule map_cong) (auto simp: Counter_entry_iff)
  then have "Counter xs = map (\<lambda>k. (k, count_list xs k)) (map fst (Counter xs))"
    by (simp add: comp_def)
  then show ?thesis
    by (simp only: keys_Counter_first_seen)
qed

text \<open>
  Claim C7, as amended. The output of \<open>find_frequently_bought_together\<close> is sorted
  descending by count. Pairs with equal counts appear in the order in which the loops first
  met them (the sort is stable and the dictionary keeps insertion order), not in the
  lexicographic order of the pairs. The order is a function of the input.
\<close>

theorem co_occurrence_output_order:
  "\<exists>out. find_frequently_bought_together carts m = Inr out
     \<and> sorted_wrt (\<lambda>x y. snd y \<le> snd x) out
     \<and> (\<forall>n. map fst (filter (\<lambda>e. snd e = n) out)
            = filter (\<lambda>pair. pair_count carts pair = n \<and> m \<le> int n)
                (first_seen (all_pairs carts)))"
proof -
  define out where
    "out = sorted_by_count_desc (filter (\<lambda>e. m \<le> int (snd e)) (Counter (all_pairs carts)))"
  have eq: "find_frequently_bought_together carts m = Inr out"
    by (simp add: find_frequently_bought_together_eq out_def)
  have sorted: "sorted_wrt (\<lambda>x y. snd y \<le> snd x) out"
    unfolding out_def by (rule sorted_sorted_by_count_desc)
  have ties: "map fst (filter (\<lambda>e. snd e = n) out)
            = filter (\<lambda>pair. pair_count carts pair = n \<and> m \<le> int n)
                (first_seen (all_pairs carts))" for n
  proof -
    have "filter (\<lambda>e. snd e = n) out
        = filter (\<lambda>e. snd e = n) (filter (\<lambda>e. m \<le> int (snd e)) (Counter (all_pairs carts)))"
      unfolding out_def by (rule stable_sorted_by_count_desc)
    also have "\<dots> = filter (\<lambda>e. snd e = n \<and> m \<le> int (snd e))
                      (map (\<lambda>k. (k, pair_count carts k)) (first_seen (all_pairs carts)))"
      by (simp add: Counter_eq_map [of "all_pairs carts"] pair_count_def [abs_def] conj_commute)
    finally show ?thesis
      by (simp add: filter_map comp_def) (rule filter_cong, auto)
  qed
  show ?thesis
    using eq sorted ties by blast
qed

text \<open>The claim as stated fails: with the carts \<open>[C,D]\<close>, \<open>[C,D]\<close>, \<open>[A,B]\<close>,
  \<open>[A,B]\<close> the pair \<open>(C,D)\<close> comes before \<open>(A,B)\<close> at equal counts.\<close>

theorem co_occurrence_ties_counterexample:
  "find_frequently_bought_together [[''C'', ''D''], [''C'', ''D''], [''A'', ''B''], [''A'', ''B'']] 2
     = Inr [((''C'', ''D''), 2), ((''A'', ''B''), 2)]
   \<and> \<not> sorted_by_count_then_pair [((''C'', ''D''), 2), ((''A'', ''B''), 2)]"
  using example_fbt_ties by (simp add: sorted_by_count_then_pair_def pair_less_eq_def)

lemma count_list_distinct: "distinct xs \<Longrightarrow> count_list xs k = (if k \<in> set xs then 1 else 0)"
  by (induction xs) auto

lemma pairs_of_sorted_distinct:
  fixes xs :: "'a :: linorder list"
  assumes "sorted xs" and "distinct xs"
  shows "distinct (pairs_of xs)
       \<and> set (pairs_of xs) = {(a, b). a \<in> set xs \<and> b \<in> set xs \<and> a < b}"
  using assms
proof (induction xs)
  case Nil
  show ?case by simp
next
  case (Cons x xs)
  then have IH: "distinct (pairs_of xs)"
      "set (pairs_of xs) = {(a, b). a \<in> set xs \<and> b \<in> set xs \<and> a < b}"
    by simp_all
  have lt: "x < y" if "y \<in> set xs" for y
    using Cons.prems that by (auto simp: less_le)
  have d: "distinct (map (Pair x) xs)"
    using Cons.prems by (simp add: distinct_map inj_on_def)
  have disj: "set (map (Pair x) xs) \<inter> set (pairs_of xs) = {}"
    using Cons.prems by (auto simp: IH(2))
  have nlt: "\<not> y < x" if "y \<in> set xs" for y
    using lt [OF that] by simp
  have "set (pairs_of (x # xs)) = {(a, b). a \<in> set (x # xs) \<and> b \<in> set (x # xs) \<and> a < b}"
    using lt nlt by (auto simp: IH(2))
  then show ?case
    using d disj IH(1) by simp
qed

lemma count_pairs_of_distinct_cart:
  assumes "distinct c"
  shows "count_list (pairs_of (sort c)) (a, b) = (if a < b \<and> a \<in> set c \<and> b \<in> set c then 1 else 0)"
proof -
  have "sorted (sort c)" and "distinct (sort c)"
    using assms by simp_all
  then have "distinct (pairs_of (sort c))"
    and "set (pairs_of (sort c)) = {(a, b). a \<in> set (sort c) \<and> b \<in> set (sort c) \<and> a < b}"
    using pairs_of_sorted_distinct [of "sort c"] by blast+
  then show ?thesis
    by (simp add: count_list_distinct)
qed

lemma pair_count_Cons:
  "pair_count (c # carts) pair = count_list (pairs_of (sort c)) pair + pair_count carts pair"
  by (simp add: pair_count_def all_pairs_Cons)

lemma pair_count_distinct_carts:
  assumes "\<forall>c \<in> set carts. distinct c"
  shows "pair_count carts (a, b) = (if a < b then carts_with_both a b carts else 0)"
  using assms
proof (induction carts)
  case Nil
  show ?case by (simp add: pair_count_def all_pairs_def carts_with_both_def)
next
  case (Cons c carts)
  then show ?case
    by (simp add: pair_count_Cons count_pairs_of_distinct_cart carts_with_both_def)
qed

lemma all_pairs_append: "all_pairs (cs1 @ cs2) = all_pairs cs1 @ all_pairs cs2"
  by (simp add: all_pairs_def)

lemma pairs_of_short: "length xs < 2 \<Longrightarrow> pairs_of xs = []"
  by (cases xs) (auto simp: less_Suc_eq)

text \<open>
  Where the claimed set semantics does hold: when no cart holds the same identifier twice,
  the entry \<open>((a, b), n)\<close> is in the output exactly when \<open>a < b\<close>, \<open>n\<close> is the number
  of carts holding both \<open>a\<close> and \<open>b\<close>, \<open>n\<close> is positive and reaches the minimum
  frequency, and no self-pair is in the output. A cart with fewer than 2 items contributes
  no pairs. Nothing in \<open>find_frequently_bought_together\<close> establishes the premise: the
  unique constraint of \<open>CartItem\<close> is on the content type together with the object
  identifier, and the function reads the object identifier alone.
\<close>

lemma co_occurrence_counts_distinct_carts:
  "((\<forall>c \<in> set carts. distinct c) \<longrightarrow>
      (\<exists>out. find_frequently_bought_together carts m = Inr out
         \<and> (\<forall>a b n. ((a, b), n) \<in> set out \<longleftrightarrow>
               a < b \<and> n = carts_with_both a b carts \<and> 0 < n \<and> m \<le> int n)
         \<and> (\<forall>a n. ((a, a), n) \<notin> set out)))
   \<and> (length c < 2 \<longrightarrow>
        find_frequently_bought_together (cs1 @ c # cs2) m
          = find_frequently_bought_together (cs1 @ cs2) m)"
proof (intro conjI impI)
  assume d: "\<forall>c \<in> set carts. distinct c"
  define out where
    "out = sorted_by_count_desc (filter (\<lambda>e. m \<le> int (snd e)) (Counter (all_pairs carts)))"
  have eq: "find_frequently_bought_together carts m = Inr out"
    by (simp add: find_frequently_bought_together_eq out_def)
  have iff: "((a, b), n) \<in> set out \<longleftrightarrow>
               a < b \<and> n = carts_with_both a b carts \<and> 0 < n \<and> m \<le> int n" for a b n
    unfolding out_def fbt_output_iff pair_count_distinct_carts [OF d] by auto
  then have "((a, a), n) \<notin> set out" for a n
    by simp
  with eq iff show "\<exists>out. find_frequently_bought_together carts m = Inr out
         \<and> (\<forall>a b n. ((a, b), n) \<in> set out \<longleftrightarrow>
               a < b \<and> n = carts_with_both a b carts \<and> 0 < n \<and> m \<le> int n)
         \<and> (\<forall>a n. ((a, a), n) \<notin> set out)"
    by blast
next
  assume "length c < 2"
  then have "pairs_of (sort c) = []"
    by (intro pairs_of_short) simp
  then have "all_pairs (cs1 @ c # cs2) = all_pairs (cs1 @ cs2)"
    by (simp add: all_pairs_append all_pairs_Cons)
  then show "find_frequently_bought_together (cs1 @ c # cs2) m
          = find_frequently_bought_together (cs1 @ cs2) m"
    by (simp only: find_frequently_bought_together_eq)
qed

text \<open>
  Claim C1. The co-occurrence analysis is meant to be set-based per cart: repeated
  occurrences of a product collapse to one membership, the count of a pair is the number of
  carts holding both products, and no self-pair appears. The code sorts the identifiers of
  a cart and pairs them by position without making them distinct. For a cart whose items
  carry the identifiers \<open>A\<close>, \<open>A\<close>, \<open>B\<close> (two items of different content types with
  the same object identifier, and a third item) and minimum frequency 1, the output holds
  the self-pair \<open>(A, A)\<close> and gives \<open>(A, B)\<close> the count 2, although one cart holds both
  products. The similarity score on the same cart does collapse the repetition: against the
  cart \<open>[A, B]\<close> it is 1.
\<close>

theorem co_occurrence_repeated_identifier:
  "find_frequently_bought_together [[''A'', ''A'', ''B'']] 1
     = Inr [((''A'', ''B''), 2), ((''A'', ''A''), 1)]
   \<and> ((''A'', ''A''), 1) \<in> set [((''A'', ''B''), 2 :: nat), ((''A'', ''A''), 1)]
   \<and> carts_with_both ''A'' ''B'' [[''A'', ''A'', ''B'']] = 1
   \<and> get_cart_similarity_score (\<lambda>x. x) [''A'', ''A'', ''B''] [''A'', ''B''] = Inr 1"
proof -
  have "set [''A'', ''A'', ''B''] \<inter> set [''A'', ''B''] = set [''A'', ''B'']"
    and "set [''A'', ''A'', ''B''] \<union> set [''A'', ''B''] = set [''A'', ''B'']"
    by auto
  then have "get_cart_similarity_score (\<lambda>x. x) [''A'', ''A'', ''B''] [''A'', ''B''] = Inr 1"
    unfolding get_cart_similarity_score_eq by (simp add: card_gt_0_iff)
  then show ?thesis
    using example_fbt_duplicate by (simp add: carts_with_both_def)
qed

subsection \<open>Followers: the batch analysis and the recommendation query\<close>

lemma map_of_follower_step:
  "map_of (follower_step xy pf)
     = (map_of pf)(fst xy \<mapsto> (case map_of pf (fst xy) of None \<Rightarrow> [] | Some fs \<Rightarrow> fs) @ [snd xy])"
  by (simp add: follower_step_def map_of_dict_update)

lemma map_of_fold_follower_step:
  "map_of (fold follower_step ps pf) k =
     (case map_of pf k of
        None \<Rightarrow> if filter (\<lambda>xy. fst xy = k) ps = [] then None
                else Some (map snd (filter (\<lambda>xy. fst xy = k) ps))
      | Some fs \<Rightarrow> Some (fs @ map snd (filter (\<lambda>xy. fst xy = k) ps)))"
proof (induction ps arbitrary: pf)
  case Nil
  show ?case by (simp split: option.split)
next
  case (Cons xy ps)
  show ?case
    using Cons.IH [of "follower_step xy pf"]
    by (simp add: map_of_follower_step split: option.split)
qed

lemma distinct_fold_follower_step:
  "distinct (map fst pf) \<Longrightarrow> distinct (map fst (fold follower_step ps pf))"
  by (induction ps arbitrary: pf) (simp_all add: follower_step_def distinct_dict_update)

lemma map_of_product_followers:
  "map_of (fold follower_step (all_adjacent carts) []) p
     = (if followers_of p carts = [] then None else Some (followers_of p carts))"
  by (simp add: map_of_fold_follower_step followers_of_def)

lemma map_of_build_result_pure:
  "map_of (build_result_pure (q, fs) res)
     = (if fs \<noteq> [] then (map_of res)(q \<mapsto> top_entry (Counter fs)) else map_of res)"
  by (simp add: build_result_pure_def map_of_dict_set)

lemma map_of_fold_build_result_pure:
  assumes "distinct (map fst pf)"
  shows "map_of (fold build_result_pure pf res) p =
     (case map_of pf p of
        None \<Rightarrow> map_of res p
      | Some fs \<Rightarrow> if fs = [] then map_of res p else Some (top_entry (Counter fs)))"
  using assms
proof (induction pf arbitrary: res)
  case Nil
  show ?case by simp
next
  case (Cons e pf)
  obtain q fs where e: "e = (q, fs)" by (cases e)
  have d: "distinct (map fst pf)" and q: "q \<notin> fst ` set pf"
    using Cons.prems by (simp_all add: e)
  have none: "map_of pf q = None"
    using q by (simp add: map_of_eq_None_iff)
  show ?case
  proof (cases "p = q")
    case True
    then show ?thesis
      using Cons.IH [OF d, of "build_result_pure (q, fs) res"] none
      by (simp add: e map_of_build_result_pure)
  next
    case False
    then show ?thesis
      using Cons.IH [OF d, of "build_result_pure (q, fs) res"]
      by (simp add: e map_of_build_result_pure split: option.split)
  qed
qed

lemma map_of_shop_result:
  "map_of (fold build_result_pure (fold follower_step (all_adjacent carts) []) []) p
     = (if followers_of p carts = [] then None
        else Some (top_entry (Counter (followers_of p carts))))"
proof -
  have "distinct (map fst (fold follower_step (all_adjacent carts) []))"
    by (rule distinct_fold_follower_step) simp
  then show ?thesis
    by (simp add: map_of_fold_build_result_pure map_of_product_followers)
qed

lemma most_common_one: "most_common 1 c = (if c = [] then [] else [top_entry c])"
proof (cases "sorted_by_count_desc c")
  case Nil
  then have "c = []"
    using length_sorted_by_count_desc [of c] by simp
  then show ?thesis
    by (simp add: most_common_def sorted_by_count_desc_def)
next
  case (Cons e es)
  then have "c \<noteq> []"
    using length_sorted_by_count_desc [of c] by auto
  then show ?thesis
    by (simp add: most_common_def top_entry_def Cons)
qed

lemma most_common_eq_Nil_iff: "1 \<le> n \<Longrightarrow> most_common n c = [] \<longleftrightarrow> c = []"
  using length_sorted_by_count_desc [of c] by (auto simp: most_common_def)


lemma count_list_followers:
  "count_list (map snd (filter (\<lambda>xy. fst xy = p) ps)) q = count_list ps (p, q)"
  by (induction ps) auto

lemma count_list_map_filter:
  "count_list (map f xs) k = length (filter (\<lambda>x. f x = k) xs)"
  by (induction xs) auto

lemma count_list_adjacent:
  "count_list (adjacent c) (p, q)
     = length (filter (\<lambda>i. c ! i = p \<and> c ! Suc i = q) [0..<length c - 1])"
proof -
  have "count_list (map (\<lambda>i. (c ! i, c ! Suc i)) [0..<length c - Suc 0]) (p, q)
      = length (filter (\<lambda>i. (c ! i, c ! Suc i) = (p, q)) [0..<length c - Suc 0])"
    by (rule count_list_map_filter)
  then show ?thesis
    by (simp add: adjacent_nth)
qed

lemma count_list_followers_of:
  "count_list (followers_of p carts) q = follow_count p q carts"
proof -
  have "count_list (followers_of p carts) q = count_list (all_adjacent carts) (p, q)"
    unfolding followers_of_def by (rule count_list_followers)
  also have "\<dots> = sum_list (map (\<lambda>c. count_list (adjacent c) (p, q)) carts)"
    unfolding all_adjacent_def count_list_concat by (simp add: comp_def)
  also have "\<dots> = follow_count p q carts"
    unfolding follow_count_def count_list_adjacent ..
  finally show ?thesis .
qed

lemma followers_of_eq_Nil_iff:
  "followers_of p carts = [] \<longleftrightarrow> (\<forall>q. follow_count p q carts = 0)"
proof -
  have "followers_of p carts = [] \<longleftrightarrow> (\<forall>q. q \<notin> set (followers_of p carts))"
    by (cases "followers_of p carts") auto
  then show ?thesis
    by (simp add: count_list_followers_of [symmetric] count_list_0_iff)
qed

lemma example_followers_AB:
  "followers_of ''A'' [[''A'', ''B''], [''A'', ''B'']] = [''B'', ''B'']"
  "followers_of ''B'' [[''A'', ''B''], [''A'', ''B'']] = []"
  by (simp_all add: followers_of_def all_adjacent_def adjacent_def)

lemma example_recommendations_AB:
  "get_product_recommendations ''A'' [[''A'', ''B''], [''A'', ''B'']] 5 = Inr [(''B'', 2)]"
  "get_product_recommendations ''B'' [[''A'', ''B''], [''A'', ''B'']] 5 = Inr []"
  unfolding get_product_recommendations_eq example_followers_AB Counter_twice
  by (simp_all add: most_common_def sorted_by_count_desc_single Counter_def sorted_by_count_desc_def)

lemma example_shop_single:
  "shop_analyze_product_sequences [[''A'', ''B'']] = Inr [(''A'', (''B'', 1))]"
proof -
  have "all_adjacent [[''A'', ''B'']] = [(''A'', ''B'')]"
    by (simp add: all_adjacent_def adjacent_def)
  moreover have "fold follower_step [(''A'', ''B'')] [] = [(''A'', [''B''])]"
    by (simp add: follower_step_def)
  moreover have "fold build_result_pure [(''A'', [''B''])] [] = [(''A'', (''B'', 1))]"
    by (simp add: build_result_pure_def dict_set_def example_Counter_B top_entry_single)
  ultimately show ?thesis
    by (simp only: shop_analyze_product_sequences_eq)
qed

lemma example_recommendations_ABC:
  "get_product_recommendations ''A'' [[''A'', ''B''], [''A'', ''B''], [''A'', ''C'']] 1
     = Inr [(''B'', 2)]"
proof -
  have "followers_of ''A'' [[''A'', ''B''], [''A'', ''B''], [''A'', ''C'']] = [''B'', ''B'', ''C'']"
    by (simp add: followers_of_def all_adjacent_def adjacent_def)
  then show ?thesis
    by (simp add: get_product_recommendations_eq most_common_one example_Counter_BBC
          example_top_BC)
qed

text \<open>
  Claim C10, as amended. The batch analysis of the API layer and the recommendation query
  agree: the entry of \<open>p\<close> in \<open>shop_analyze_product_sequences carts\<close> is \<open>e\<close> exactly when
  \<open>get_product_recommendations p carts 1\<close> is the one-element list \<open>[e]\<close>; a product with
  at least one immediate follower has such an entry; and for every limit of at least 1,
  \<open>p\<close> has no entry exactly when the recommendation query returns the empty list.
\<close>

theorem shop_analysis_agrees_with_recommendations:
  "\<exists>res. shop_analyze_product_sequences carts = Inr res
     \<and> (\<forall>e. map_of res p = Some e \<longleftrightarrow> get_product_recommendations p carts 1 = Inr [e])
     \<and> ((\<exists>q. 0 < follow_count p q carts) \<longrightarrow>
          (\<exists>e. map_of res p = Some e \<and> get_product_recommendations p carts 1 = Inr [e]))
     \<and> (1 \<le> limit \<longrightarrow>
          (map_of res p = None \<longleftrightarrow> get_product_recommendations p carts limit = Inr []))"
proof -
  define res where
    "res = fold build_result_pure (fold follower_step (all_adjacent carts) []) []"
  define fs where "fs = followers_of p carts"
  have eq: "shop_analyze_product_sequences carts = Inr res"
    by (simp add: shop_analyze_product_sequences_eq res_def)
  have look: "map_of res p = (if fs = [] then None else Some (top_entry (Counter fs)))"
    unfolding res_def fs_def by (rule map_of_shop_result)
  have one: "get_product_recommendations p carts 1
      = Inr (if fs = [] then [] else [top_entry (Counter fs)])"
    by (simp add: get_product_recommendations_eq most_common_one Counter_eq_Nil_iff fs_def)
  have lim: "get_product_recommendations p carts limit = Inr [] \<longleftrightarrow> fs = []" if "1 \<le> limit"
    using that
    by (simp add: get_product_recommendations_eq most_common_eq_Nil_iff Counter_eq_Nil_iff fs_def)
  have ex: "fs \<noteq> []" if "\<exists>q. 0 < follow_count p q carts"
    using that followers_of_eq_Nil_iff [of p carts] by (auto simp: fs_def)
  have a: "\<forall>e. map_of res p = Some e \<longleftrightarrow> get_product_recommendations p carts 1 = Inr [e]"
    by (simp add: look one)
  have b: "(\<exists>q. 0 < follow_count p q carts) \<longrightarrow>
          (\<exists>e. map_of res p = Some e \<and> get_product_recommendations p carts 1 = Inr [e])"
    using ex by (simp add: look one)
  have c: "1 \<le> limit \<longrightarrow>
          (map_of res p = None \<longleftrightarrow> get_product_recommendations p carts limit = Inr [])"
    using lim by (simp add: look)
  show ?thesis
    using eq a b c by (intro exI [of _ res] conjI)
qed

theorem shop_analysis_agrees_with_recommendations_witness:
  "\<exists>res e. shop_analyze_product_sequences [[''A'', ''B''], [''A'', ''C'']] = Inr res
     \<and> map_of res ''A'' = Some e
     \<and> get_product_recommendations ''A'' [[''A'', ''B''], [''A'', ''C'']] 1 = Inr [e]
     \<and> (map_of res ''A'' = None
          \<longleftrightarrow> get_product_recommendations ''A'' [[''A'', ''B''], [''A'', ''C'']] 5 = Inr [])"
proof -
  let ?X = "[[''A'', ''B''], [''A'', ''C'']]"
  have f: "\<exists>q. 0 < follow_count ''A'' q ?X"
    by (rule exI [of _ "''B''"]) (simp add: follow_count_def)
  have l: "(1::int) \<le> 5"
    by simp
  from shop_analysis_agrees_with_recommendations [of ?X "''A''" 5]
  obtain res where r: "shop_analyze_product_sequences ?X = Inr res"
    and e: "(\<exists>q. 0 < follow_count ''A'' q ?X) \<longrightarrow>
          (\<exists>e. map_of res ''A'' = Some e \<and> get_product_recommendations ''A'' ?X 1 = Inr [e])"
    and n: "(1::int) \<le> 5 \<longrightarrow>
          (map_of res ''A'' = None \<longleftrightarrow> get_product_recommendations ''A'' ?X 5 = Inr [])"
    by (elim exE conjE)
  from e f have "\<exists>e. map_of res ''A'' = Some e \<and> get_product_recommendations ''A'' ?X 1 = Inr [e]"
    by (rule mp)
  then obtain e' where "map_of res ''A'' = Some e'"
    and "get_product_recommendations ''A'' ?X 1 = Inr [e']"
    by (elim exE conjE)
  moreover from n l have "map_of res ''A'' = None
          \<longleftrightarrow> get_product_recommendations ''A'' ?X 5 = Inr []"
    by (rule mp)
  ultimately show ?thesis
    using r by (intro exI [of _ res] exI [of _ e'] conjI)
qed

text \<open>The claim as stated, for any limit, fails at limit 0: the query returns the empty
  list for a product that has an entry in the batch analysis.\<close>

theorem shop_analysis_limit_zero_counterexample:
  "shop_analyze_product_sequences [[''A'', ''B'']] = Inr [(''A'', (''B'', 1))]
   \<and> map_of [(''A'', (''B'', 1 :: nat))] ''A'' \<noteq> None
   \<and> get_product_recommendations ''A'' [[''A'', ''B'']] 0 = Inr []"
  using example_shop_single
  by (simp add: get_product_recommendations_eq most_common_def)

lemma distinct_keys_most_common: "distinct (map fst c) \<Longrightarrow> distinct (map fst (most_common n c))"
  by (simp add: most_common_def take_map [symmetric] distinct_keys_sorted_by_count_desc)

lemma set_most_common_subset: "set (most_common n c) \<subseteq> set c"
  using set_take_subset [of "nat n" "sorted_by_count_desc c"]
  by (simp add: most_common_def set_sorted_by_count_desc)

lemma sorted_wrt_take_desc:
  "sorted_wrt R xs \<Longrightarrow> sorted_wrt R (take n xs)"
  by (induction xs arbitrary: n) (auto simp: take_Cons split: nat.split dest: in_set_takeD)

lemma sorted_most_common: "sorted_wrt (\<lambda>x y. snd y \<le> snd x) (most_common n c)"
  unfolding most_common_def by (rule sorted_wrt_take_desc) (rule sorted_sorted_by_count_desc)

lemma length_most_common: "length (most_common n c) = min (nat n) (length c)"
  by (simp add: most_common_def length_sorted_by_count_desc min.commute)

lemma most_common_dominates:
  assumes "e \<in> set (most_common n c)" and "e' \<in> set c" and "e' \<notin> set (most_common n c)"
  shows "snd e' \<le> snd e"
proof -
  define L where "L = sorted_by_count_desc c"
  have L: "L = take (nat n) L @ drop (nat n) L"
    by simp
  have "sorted_wrt (\<lambda>x y. snd y \<le> snd x) (take (nat n) L @ drop (nat n) L)"
    using sorted_sorted_by_count_desc [of c] by (simp add: L_def)
  then have dom: "\<forall>x \<in> set (take (nat n) L). \<forall>y \<in> set (drop (nat n) L). snd y \<le> snd x"
    unfolding sorted_wrt_append by (elim conjE)
  have "e' \<in> set L"
    using assms(2) by (simp add: L_def set_sorted_by_count_desc)
  then have "e' \<in> set (take (nat n) L) \<union> set (drop (nat n) L)"
    by (subst (asm) L) (simp only: set_append)
  then have "e' \<in> set (drop (nat n) L)"
    using assms(3) by (simp add: most_common_def L_def)
  moreover have "e \<in> set (take (nat n) L)"
    using assms(1) by (simp add: most_common_def L_def)
  ultimately show ?thesis
    using dom by blast
qed

lemma length_Counter: "length (Counter xs) = card (set xs)"
proof -
  have "length (map fst (Counter xs)) = card (set (map fst (Counter xs)))"
    using distinct_Counter [of xs] by (simp only: distinct_card)
  then show ?thesis
    by (simp add: keys_Counter)
qed

text \<open>
  Claim C6. \<open>get_product_recommendations p carts limit\<close> returns the distinct products
  that immediately followed \<open>p\<close>, each with the number of times it did, ordered by that
  frequency descending and cut to the limit: its length is the smaller of the limit and the
  number of distinct followers, and no follower left out is more frequent than one kept. It
  returns the empty list when \<open>p\<close> never comes immediately before anything. For the carts
  \<open>[A,B]\<close>, \<open>[A,B]\<close> the query for \<open>A\<close> with limit 5 gives \<open>[(B, 2)]\<close> and the query
  for \<open>B\<close> gives the empty list.
\<close>

theorem recommendations_spec:
  "(\<exists>out. get_product_recommendations p carts limit = Inr out
      \<and> distinct (map fst out)
      \<and> (\<forall>e \<in> set out. 0 < snd e \<and> snd e = follow_count p (fst e) carts)
      \<and> sorted_wrt (\<lambda>x y. snd y \<le> snd x) out
      \<and> length out = min (nat limit) (card {q. 0 < follow_count p q carts})
      \<and> (\<forall>q. 0 < follow_count p q carts \<longrightarrow> q \<notin> fst ` set out \<longrightarrow>
            (\<forall>e \<in> set out. follow_count p q carts \<le> snd e))
      \<and> ((\<forall>q. follow_count p q carts = 0) \<longrightarrow> out = []))
   \<and> get_product_recommendations ''A'' [[''A'', ''B''], [''A'', ''B'']] 5 = Inr [(''B'', 2)]
   \<and> get_product_recommendations ''B'' [[''A'', ''B''], [''A'', ''B'']] 5 = Inr []"
proof -
  define fs where "fs = followers_of p carts"
  define out where "out = most_common limit (Counter fs)"
  have eq: "get_product_recommendations p carts limit = Inr out"
    by (simp add: get_product_recommendations_eq out_def fs_def)
  have cnt: "count_list fs q = follow_count p q carts" for q
    unfolding fs_def by (rule count_list_followers_of)
  have d: "distinct (map fst out)"
    unfolding out_def by (rule distinct_keys_most_common) (rule distinct_Counter)
  have entry: "0 < snd e \<and> snd e = follow_count p (fst e) carts" if "e \<in> set out" for e
  proof -
    have "(fst e, snd e) \<in> set (Counter fs)"
      using that set_most_common_subset [of limit "Counter fs"] by (auto simp: out_def)
    then have "fst e \<in> set fs \<and> snd e = count_list fs (fst e)"
      unfolding Counter_entry_iff .
    then have "fst e \<in> set fs" and "snd e = count_list fs (fst e)"
      by (rule conjunct1, rule conjunct2)
    then show ?thesis
      by (simp add: cnt [symmetric] count_list_pos_iff)
  qed
  have s: "sorted_wrt (\<lambda>x y. snd y \<le> snd x) out"
    unfolding out_def by (rule sorted_most_common)
  have "{q. 0 < follow_count p q carts} = set fs"
    by (simp add: cnt [symmetric] count_list_pos_iff)
  then have len: "length out = min (nat limit) (card {q. 0 < follow_count p q carts})"
    by (simp add: out_def length_most_common length_Counter)
  have dom: "follow_count p q carts \<le> snd e"
    if "0 < follow_count p q carts" and "q \<notin> fst ` set out" and "e \<in> set out" for q e
  proof -
    have "q \<in> set fs"
      using that(1) by (simp add: cnt [symmetric] count_list_pos_iff)
    then have "(q, count_list fs q) \<in> set (Counter fs)"
      by (simp add: Counter_entry_iff)
    moreover have "(q, count_list fs q) \<notin> set (most_common limit (Counter fs))"
      using that(2) by (auto simp: out_def image_iff)
    ultimately have "snd (q, count_list fs q) \<le> snd e"
      using that(3) unfolding out_def by (intro most_common_dominates)
    then show ?thesis
      by (simp add: cnt)
  qed
  have empty: "out = []" if "\<forall>q. follow_count p q carts = 0"
  proof -
    have "fs = []"
      using that followers_of_eq_Nil_iff [of p carts] by (simp add: fs_def)
    then show ?thesis
      by (simp add: out_def Counter_def most_common_def sorted_by_count_desc_def)
  qed
  have "\<exists>out. get_product_recommendations p carts limit = Inr out
      \<and> distinct (map fst out)
      \<and> (\<forall>e \<in> set out. 0 < snd e \<and> snd e = follow_count p (fst e) carts)
      \<and> sorted_wrt (\<lambda>x y. snd y \<le> snd x) out
      \<and> length out = min (nat limit) (card {q. 0 < follow_count p q carts})
      \<and> (\<forall>q. 0 < follow_count p q carts \<longrightarrow> q \<notin> fst ` set out \<longrightarrow>
            (\<forall>e \<in> set out. follow_count p q carts \<le> snd e))
      \<and> ((\<forall>q. follow_count p q carts = 0) \<longrightarrow> out = [])"
  proof (intro exI [of _ out] conjI)
    show "get_product_recommendations p carts limit = Inr out" by (rule eq)
    show "distinct (map fst out)" by (rule d)
    show "\<forall>e \<in> set out. 0 < snd e \<and> snd e = follow_count p (fst e) carts"
      by (rule ballI) (rule entry)
    show "sorted_wrt (\<lambda>x y. snd y \<le> snd x) out" by (rule s)
    show "length out = min (nat limit) (card {q. 0 < follow_count p q carts})" by (rule len)
    show "\<forall>q. 0 < follow_count p q carts \<longrightarrow> q \<notin> fst ` set out \<longrightarrow>
            (\<forall>e \<in> set out. follow_count p q carts \<le> snd e)"
      by (intro allI impI ballI) (rule dom)
    show "(\<forall>q. follow_count p q carts = 0) \<longrightarrow> out = []"
      by (rule impI) (rule empty)
  qed
  then show ?thesis
    using example_recommendations_AB by (intro conjI)
qed

theorem recommendations_spec_witness:
  "get_product_recommendations ''A'' [[''A'', ''B''], [''A'', ''B''], [''A'', ''C'']] 1
     = Inr [(''B'', 2)]
   \<and> follow_count ''A'' ''B'' [[''A'', ''B''], [''A'', ''B''], [''A'', ''C'']] = 2
   \<and> follow_count ''A'' ''C'' [[''A'', ''B''], [''A'', ''B''], [''A'', ''C'']] \<le> 2
   \<and> get_product_recommendations ''C'' [[''A'', ''B''], [''A'', ''B''], [''A'', ''C'']] 1 = Inr []"
proof -
  let ?X = "[[''A'', ''B''], [''A'', ''B''], [''A'', ''C'']]"
  from recommendations_spec [of "''A''" ?X 1]
  obtain out where o: "get_product_recommendations ''A'' ?X 1 = Inr out"
    and entry: "\<forall>e \<in> set out. 0 < snd e \<and> snd e = follow_count ''A'' (fst e) ?X"
    and dom: "\<forall>q. 0 < follow_count ''A'' q ?X \<longrightarrow> q \<notin> fst ` set out \<longrightarrow>
            (\<forall>e \<in> set out. follow_count ''A'' q ?X \<le> snd e)"
    by (elim exE conjE)
  have out: "out = [(''B'', 2)]"
    using o unfolding example_recommendations_ABC by simp
  have b: "follow_count ''A'' ''B'' ?X = 2"
    using entry unfolding out by simp
  have "0 < follow_count ''A'' ''C'' ?X"
    by (simp add: follow_count_def)
  moreover have "''C'' \<notin> fst ` set out"
    unfolding out by simp
  ultimately have "\<forall>e \<in> set out. follow_count ''A'' ''C'' ?X \<le> snd e"
    using dom by (elim allE impE)
  then have c: "follow_count ''A'' ''C'' ?X \<le> 2"
    unfolding out by simp
  from recommendations_spec [of "''C''" ?X 1]
  obtain out' where o': "get_product_recommendations ''C'' ?X 1 = Inr out'"
    and empty: "(\<forall>q. follow_count ''C'' q ?X = 0) \<longrightarrow> out' = []"
    by (elim exE conjE)
  have "\<forall>q. follow_count ''C'' q ?X = 0"
    by (simp add: follow_count_def)
  with empty have "out' = []"
    by (rule mp)
  with o' have n: "get_product_recommendations ''C'' ?X 1 = Inr []"
    by simp
  show ?thesis
    using example_recommendations_ABC b c n by (intro conjI)
qed

subsection \<open>Which products have an entry in the predecessor analysis\<close>

lemma keys_fold_predecessor_step:
  "fst ` set (fold predecessor_step ps pc) = fst ` set pc \<union> snd ` set ps"
  by (induction ps arbitrary: pc) (simp_all add: predecessor_step_def keys_set_dict_update)

lemma distinct_fold_predecessor_step:
  "distinct (map fst pc) \<Longrightarrow> distinct (map fst (fold predecessor_step ps pc))"
  by (induction ps arbitrary: pc) (simp_all add: predecessor_step_def distinct_dict_update)

lemma dict_update_values:
  assumes "\<forall>e \<in> set m. P (snd e)" and "\<And>v. P (f v)"
  shows "\<forall>e \<in> set (dict_update k d f m). P (snd e)"
  using assms(1)
proof (induction m)
  case Nil
  show ?case by (simp add: assms(2))
next
  case (Cons kv m)
  obtain k' v where kv: "kv = (k', v)" by (cases kv)
  have v: "P v" and m: "\<forall>e \<in> set m. P (snd e)"
    using Cons.prems by (simp_all add: kv)
  show ?case
  proof (cases "k' = k")
    case True
    then show ?thesis
      using m by (simp add: kv assms(2))
  next
    case False
    then show ?thesis
      using Cons.IH [OF m] v by (simp add: kv)
  qed
qed

lemma counter_incr_neq_Nil: "counter_incr x c \<noteq> []"
  by (cases c) (auto simp: counter_incr_def split: if_splits)

lemma nonempty_fold_predecessor_step:
  "\<forall>e \<in> set pc. snd e \<noteq> [] \<Longrightarrow> \<forall>e \<in> set (fold predecessor_step ps pc). snd e \<noteq> []"
proof (induction ps arbitrary: pc)
  case Nil
  then show ?case by simp
next
  case (Cons xy ps)
  have "\<forall>e \<in> set (predecessor_step xy pc). snd e \<noteq> []"
    unfolding predecessor_step_def
    using Cons.prems by (rule dict_update_values) (rule counter_incr_neq_Nil)
  then show ?case
    using Cons.IH by simp
qed

lemma keys_fold_build_stats_pure:
  "fst ` set (fold build_stats_pure pc res) = fst ` set res \<union> fst ` set pc"
  by (induction pc arbitrary: res) (auto simp: build_stats_pure_def dict_set_def keys_set_dict_update)

lemma distinct_fold_build_stats_pure:
  "distinct (map fst res) \<Longrightarrow> distinct (map fst (fold build_stats_pure pc res))"
  by (induction pc arbitrary: res) (simp_all add: build_stats_pure_def dict_set_def distinct_dict_update)

lemma map_of_fold_build_stats_pure:
  assumes "distinct (map fst pc)"
  shows "map_of (fold build_stats_pure pc res) p =
     (case map_of pc p of None \<Rightarrow> map_of res p | Some preds \<Rightarrow> Some (stats_of p preds))"
  using assms
proof (induction pc arbitrary: res)
  case Nil
  show ?case by simp
next
  case (Cons e pc)
  obtain q preds where e: "e = (q, preds)" by (cases e)
  have d: "distinct (map fst pc)" and q: "q \<notin> fst ` set pc"
    using Cons.prems by (simp_all add: e)
  have none: "map_of pc q = None"
    using q by (simp add: map_of_eq_None_iff)
  show ?case
  proof (cases "p = q")
    case True
    then show ?thesis
      using Cons.IH [OF d, of "build_stats_pure (q, preds) res"] none
      by (simp add: e build_stats_pure_def map_of_dict_set)
  next
    case False
    then show ?thesis
      using Cons.IH [OF d, of "build_stats_pure (q, preds) res"]
      by (simp add: e build_stats_pure_def map_of_dict_set split: option.split)
  qed
qed

lemma snd_set_adjacent: "snd ` set (adjacent c) = set (tl c)"
proof -
  have "map snd (zip c (tl c)) = tl c"
    by (simp add: map_snd_zip_take)
  then have "set (map snd (adjacent c)) = set (tl c)"
    by (simp only: adjacent_def)
  then show ?thesis by simp
qed

lemma snd_set_all_adjacent: "snd ` set (all_adjacent carts) = (\<Union>c \<in> set carts. set (tl c))"
proof -
  have "snd ` set (all_adjacent carts) = (\<Union>c \<in> set carts. snd ` set (adjacent c))"
    by (auto simp: all_adjacent_def)
  then show ?thesis
    by (simp only: snd_set_adjacent)
qed

text \<open>
  Claim C3. The result of the predecessor analysis of the standalone module has an entry
  exactly for the products that appear at a non-first position of some cart (the elements
  of \<open>tl c\<close> for a cart \<open>c\<close>), each entry naming a predecessor; products that are always
  first are absent, and a collection of only empty or singleton carts (the empty collection
  included) gives the empty result.
\<close>

theorem predecessor_entries:
  "\<exists>res. analyze_product_sequences carts = Inr res
     \<and> distinct (map fst res)
     \<and> fst ` set res = (\<Union>c \<in> set carts. set (tl c))
     \<and> (\<forall>p st. map_of res p = Some st \<longrightarrow>
           product_id st = p \<and> most_common_predecessor st \<noteq> None)
     \<and> ((\<forall>c \<in> set carts. length c \<le> 1) \<longrightarrow> res = [])"
proof -
  define pc where "pc = fold predecessor_step (all_adjacent carts) []"
  define res where "res = fold build_stats_pure pc []"
  have eq: "analyze_product_sequences carts = Inr res"
    by (simp add: analyze_product_sequences_eq res_def pc_def)
  have dpc: "distinct (map fst pc)"
    unfolding pc_def by (rule distinct_fold_predecessor_step) simp
  have ne: "\<forall>e \<in> set pc. snd e \<noteq> []"
    unfolding pc_def by (rule nonempty_fold_predecessor_step) simp
  have d: "distinct (map fst res)"
    unfolding res_def by (rule distinct_fold_build_stats_pure) simp
  have keys: "fst ` set res = (\<Union>c \<in> set carts. set (tl c))"
    by (simp add: res_def pc_def keys_fold_build_stats_pure keys_fold_predecessor_step
          snd_set_all_adjacent)
  have entry: "product_id st = p \<and> most_common_predecessor st \<noteq> None"
    if "map_of res p = Some st" for p st
  proof -
    have "map_of res p = (case map_of pc p of None \<Rightarrow> None | Some preds \<Rightarrow> Some (stats_of p preds))"
      unfolding res_def using map_of_fold_build_stats_pure [OF dpc, of "[]" p]
      by (simp split: option.split)
    with that obtain preds where preds: "map_of pc p = Some preds" and st: "st = stats_of p preds"
      by (cases "map_of pc p") auto
    have "(p, preds) \<in> set pc"
      using preds by (rule map_of_SomeD)
    then have "preds \<noteq> []"
      using ne by auto
    then show ?thesis
      by (simp add: st stats_of_def)
  qed
  have short: "res = []" if "\<forall>c \<in> set carts. length c \<le> 1"
  proof -
    have "tl c = []" if "c \<in> set carts" for c
      using \<open>\<forall>c \<in> set carts. length c \<le> 1\<close> that by (cases c) auto
    then have "fst ` set res = {}"
      unfolding keys by simp
    then show ?thesis by simp
  qed
  show ?thesis
  proof (intro exI [of _ res] conjI)
    show "analyze_product_sequences carts = Inr res" by (rule eq)
    show "distinct (map fst res)" by (rule d)
    show "fst ` set res = (\<Union>c \<in> set carts. set (tl c))" by (rule keys)
    show "\<forall>p st. map_of res p = Some st \<longrightarrow>
           product_id st = p \<and> most_common_predecessor st \<noteq> None"
      by (intro allI impI) (rule entry)
    show "(\<forall>c \<in> set carts. length c \<le> 1) \<longrightarrow> res = []"
      by (rule impI) (rule short)
  qed
qed

theorem predecessor_entries_witness:
  "analyze_product_sequences [[''A''], [''B'']] = Inr []
   \<and> (\<exists>res st. analyze_product_sequences [[''A'', ''B''], [''C'']] = Inr res
         \<and> fst ` set res = {''B''}
         \<and> map_of res ''B'' = Some st
         \<and> product_id st = ''B'' \<and> most_common_predecessor st \<noteq> None)"
proof -
  from predecessor_entries [of "[[''A''], [''B'']]"]
  obtain res where r: "analyze_product_sequences [[''A''], [''B'']] = Inr res"
    and s: "(\<forall>c \<in> set [[''A''], [''B'']]. length c \<le> 1) \<longrightarrow> res = []"
    by (elim exE conjE)
  have "\<forall>c \<in> set [[''A''], [''B'']]. length c \<le> 1"
    by simp
  with s have "res = []"
    by (rule mp)
  with r have a: "analyze_product_sequences [[''A''], [''B'']] = Inr []"
    by simp
  from predecessor_entries [of "[[''A'', ''B''], [''C'']]"]
  obtain res' where r': "analyze_product_sequences [[''A'', ''B''], [''C'']] = Inr res'"
    and k: "fst ` set res' = (\<Union>c \<in> set [[''A'', ''B''], [''C'']]. set (tl c))"
    and e: "\<forall>p st. map_of res' p = Some st \<longrightarrow>
           product_id st = p \<and> most_common_predecessor st \<noteq> None"
    by (elim exE conjE)
  have k': "fst ` set res' = {''B''}"
    unfolding k by simp
  then have "''B'' \<in> fst ` set res'"
    by simp
  then have "map_of res' ''B'' \<noteq> None"
    by (simp only: map_of_eq_None_iff not_not)
  then obtain st where st: "map_of res' ''B'' = Some st"
    by (cases "map_of res' ''B''") simp_all
  with e have "product_id st = ''B'' \<and> most_common_predecessor st \<noteq> None"
    by (elim allE impE)
  with r' k' st have "\<exists>res st. analyze_product_sequences [[''A'', ''B''], [''C'']] = Inr res
         \<and> fst ` set res = {''B''}
         \<and> map_of res ''B'' = Some st
         \<and> product_id st = ''B'' \<and> most_common_predecessor st \<noteq> None"
    by (intro exI [of _ res'] exI [of _ st] conjI) (assumption, assumption, assumption, erule conjunct1, erule conjunct2)
  with a show ?thesis
    by (intro conjI)
qed

end
